theory Spec2Isabelle
  imports Main "HOL-Library.Word"
begin

section \<open>The chat client (\<open>src/frontend/chat-bot/src/app/page.tsx\<close>)\<close>

subsection \<open>JavaScript strings\<close>

text \<open>
  A JavaScript string is a sequence of UTF-16 code units. \<open>ascii\<close> writes a
  string literal of the source as such a sequence.
\<close>

type_synonym js_string = "16 word list"

definition ascii :: "string \<Rightarrow> js_string" where
  "ascii s = map (\<lambda>c. of_nat (of_char c)) s"

text \<open>
  \<open>String.prototype.trim\<close> removes WhiteSpace and LineTerminator code points from
  both ends: TAB, LF, VT, FF, CR, SP, NBSP, the Unicode space separators and
  U+2028, U+2029, U+FEFF.
\<close>

definition js_white_space :: "16 word \<Rightarrow> bool" where
  "js_white_space c \<longleftrightarrow>
     (0x09 \<le> c \<and> c \<le> 0x0D) \<or> c = 0x20 \<or> c = 0xA0 \<or> c = 0x1680 \<or>
     (0x2000 \<le> c \<and> c \<le> 0x200A) \<or> c = 0x2028 \<or> c = 0x2029 \<or> c = 0x202F \<or>
     c = 0x205F \<or> c = 0x3000 \<or> c = 0xFEFF"

definition js_trim :: "js_string \<Rightarrow> js_string" where
  "js_trim s = rev (dropWhile js_white_space (rev (dropWhile js_white_space s)))"

text \<open>A string is falsy exactly when it is empty; \<open>null\<close> is falsy.\<close>

definition truthy :: "js_string option \<Rightarrow> bool" where
  "truthy v = (case v of None \<Rightarrow> False | Some s \<Rightarrow> s \<noteq> [])"

subsection \<open>Component state\<close>

datatype sender = User | Bot

record Message =
  msg_text :: js_string
  sender :: sender

text \<open>The JSON body of the POST request; \<open>req_session_id = None\<close> is an absent field.\<close>

record chat_request =
  req_role :: js_string
  req_content :: js_string
  req_session_id :: "js_string option"

text \<open>
  What \<open>await fetch(...)\<close> and \<open>await response.json()\<close> can yield: the fetch
  promise rejects, or a response arrives with a status and a body that is not JSON,
  is the JSON value \<open>null\<close>, or is an object whose \<open>session_id\<close> is a string or
  absent and whose \<open>content\<close> is a string.
\<close>

datatype json_body =
  Invalid_json
  | Json_null
  | Json_object (data_session_id: "js_string option") (data_content: js_string)

datatype fetch_result = Network_error | Http_response nat json_body

definition response_ok :: "nat \<Rightarrow> bool" where
  "response_ok status \<longleftrightarrow> 200 \<le> status \<and> status \<le> 299"

text \<open>
  The state of \<open>Home\<close>: the three \<open>useState\<close> cells the handler touches, the
  requests sent so far (\<open>outbox\<close>, in order), and the calls of \<open>handleSubmit\<close>
  suspended at their \<open>await\<close>: request number \<open>k\<close> (its position in \<open>outbox\<close>)
  maps to the \<open>sessionId\<close> its closure captured at submit time.
\<close>

record client =
  messages :: "Message list"
  inputValue :: js_string
  sessionId :: "js_string option"
  outbox :: "chat_request list"
  pending :: "nat \<rightharpoonup> js_string option"

definition initial :: client where
  "initial = \<lparr>messages = [], inputValue = [], sessionId = None, outbox = [],
     pending = Map.empty\<rparr>"

subsection \<open>\<open>handleSubmit\<close>\<close>

text \<open>
  The part of \<open>handleSubmit\<close> that runs synchronously in the event handler, up to
  the call of \<open>fetch\<close> (lines 26--50).
\<close>

definition handleSubmit :: "client \<Rightarrow> client" where
  "handleSubmit c =
     (if js_trim (inputValue c) = [] then c
      else
        let userMessage = \<lparr>msg_text = inputValue c, sender = User\<rparr>;
            currentInput = inputValue c;
            body = \<lparr>req_role = ascii ''user'', req_content = currentInput,
                     req_session_id = (if truthy (sessionId c) then sessionId c else None)\<rparr>
        in c\<lparr>messages := messages c @ [userMessage],
              inputValue := [],
              outbox := outbox c @ [body],
              pending := (pending c)(length (outbox c) \<mapsto> sessionId c)\<rparr>)"

text \<open>The \<open>catch\<close> block (lines 70--78).\<close>

definition catch_block :: "client \<Rightarrow> client" where
  "catch_block c =
     (let errorMessage =
        \<lparr>msg_text = ascii ''Sorry, I couldn't process your request. Please try again.'',
         sender = Bot\<rparr>
      in c\<lparr>messages := messages c @ [errorMessage]\<rparr>)"

text \<open>
  The rest of \<open>handleSubmit\<close>, run when the fetch settles (lines 52--78).
  \<open>captured\<close> is the \<open>sessionId\<close> of the render in which the handler was created.
  Reading \<open>data.session_id\<close> of \<open>null\<close> throws, which the \<open>catch\<close> handles.
\<close>

definition handleSubmit_resume :: "js_string option \<Rightarrow> fetch_result \<Rightarrow> client \<Rightarrow> client" where
  "handleSubmit_resume captured r c =
     (case r of
        Network_error \<Rightarrow> catch_block c
      | Http_response status body \<Rightarrow>
          if \<not> response_ok status then catch_block c
          else (case body of
                  Invalid_json \<Rightarrow> catch_block c
                | Json_null \<Rightarrow> catch_block c
                | Json_object sid content \<Rightarrow>
                    let c1 = (if truthy sid \<and> \<not> truthy captured
                              then c\<lparr>sessionId := sid\<rparr> else c);
                        botMessage = \<lparr>msg_text = content, sender = Bot\<rparr>
                    in c1\<lparr>messages := messages c1 @ [botMessage]\<rparr>))"

text \<open>
  What can happen to the page: the textarea's \<open>onChange\<close>, a submit (the form's
  \<open>onSubmit\<close> or Enter in the textarea), and the fetch of request \<open>k\<close> settling.
  A promise settles once, so a settled request leaves \<open>pending\<close>.
\<close>

datatype event = Set_input js_string | Submit | Settle nat fetch_result

fun step :: "client \<Rightarrow> event \<Rightarrow> client" where
  "step c (Set_input v) = c\<lparr>inputValue := v\<rparr>"
| "step c Submit = handleSubmit c"
| "step c (Settle k r) =
     (case pending c k of
        None \<Rightarrow> c
      | Some captured \<Rightarrow> handleSubmit_resume captured r (c\<lparr>pending := (pending c)(k := None)\<rparr>))"

definition run :: "client \<Rightarrow> event list \<Rightarrow> client" where
  "run c es = foldl step c es"

text \<open>A fetch fails when it rejects or the response status is not 2xx.\<close>

fun fetch_failed :: "fetch_result \<Rightarrow> bool" where
  "fetch_failed Network_error = True"
| "fetch_failed (Http_response status body) = (\<not> response_ok status)"

text \<open>The requests whose fetch has not settled yet.\<close>

definition in_flight :: "client \<Rightarrow> nat list" where
  "in_flight c = filter (\<lambda>k. pending c k \<noteq> None) [0..<length (outbox c)]"

fun settles :: "nat \<Rightarrow> event \<Rightarrow> bool" where
  "settles k (Settle j r) = (j = k)"
| "settles k e = False"

section \<open>The database schema (the initialisation script)\<close>

subsection \<open>Column types and errors\<close>

text \<open>
  \<open>UUID\<close> values are drawn from \<open>nat\<close>, timestamps are points on the integer
  line, a \<open>TEXT\<close>/\<open>VARCHAR\<close> value is its list of code points (\<open>LENGTH\<close> counts
  characters), a \<open>JSONB\<close> document is kept as its text. A nullable column is an
  \<open>option\<close>; \<open>NOT NULL\<close> columns are not, so the model has no NULL there.
\<close>

type_synonym uuid = nat
type_synonym timestamptz = int
type_synonym pg_text = "nat list"
type_synonym jsonb = "nat list"

definition str :: "string \<Rightarrow> pg_text" where
  "str s = map of_char s"

text \<open>The errors a statement can raise, by SQLSTATE; the string is the constraint's name.\<close>

datatype db_error =
  String_data_right_truncation
  | Numeric_value_out_of_range
  | Check_violation string
  | Unique_violation string
  | Foreign_key_violation string

definition bind_err :: "'e + 'a \<Rightarrow> ('a \<Rightarrow> 'e + 'b) \<Rightarrow> 'e + 'b" where
  "bind_err r f = (case r of Inl e \<Rightarrow> Inl e | Inr x \<Rightarrow> f x)"

text \<open>
  Storing into \<open>VARCHAR(n)\<close>: a longer value is an error unless the excess is all
  spaces, which are then cut off.
\<close>

definition varchar :: "nat \<Rightarrow> pg_text \<Rightarrow> db_error + pg_text" where
  "varchar n s =
     (if length s \<le> n then Inr s
      else if list_all (\<lambda>c. c = 0x20) (drop n s) then Inr (take n s)
      else Inl String_data_right_truncation)"

definition varchar_null :: "nat \<Rightarrow> pg_text option \<Rightarrow> db_error + pg_text option" where
  "varchar_null n v =
     (case v of None \<Rightarrow> Inr None | Some s \<Rightarrow> bind_err (varchar n s) (\<lambda>s'. Inr (Some s')))"

text \<open>\<open>INTEGER\<close> arithmetic raises on overflow.\<close>

definition int4 :: "int \<Rightarrow> db_error + int" where
  "int4 i = (if - (2 ^ 31) \<le> i \<and> i < 2 ^ 31 then Inr i else Inl Numeric_value_out_of_range)"

text \<open>\<open>TRIM(s)\<close> with no character list removes spaces (U+0020) from both ends.\<close>

definition TRIM :: "pg_text \<Rightarrow> pg_text" where
  "TRIM s = rev (dropWhile (\<lambda>c. c = 0x20) (rev (dropWhile (\<lambda>c. c = 0x20) s)))"

subsection \<open>Tables\<close>

text \<open>
  All three tables have \<open>id\<close> and \<open>created_at\<close>; \<open>users\<close> and \<open>sessions\<close> have
  \<open>updated_at\<close> as well, which is what the trigger function
  \<open>update_updated_at_column\<close> relies on. A column name that two tables share with
  different content is prefixed with \<open>s_\<close> in \<open>sessions\<close>.
\<close>

record row =
  row_id :: uuid
  created_at :: "timestamptz option"

record audited_row = row +
  updated_at :: "timestamptz option"

record users_row = audited_row +
  username :: pg_text
  email :: pg_text
  password_hash :: pg_text
  is_active :: bool
  native_language :: pg_text
  target_language :: pg_text
  proficiency_level :: pg_text

record sessions_row = audited_row +
  user_id :: uuid
  title :: pg_text
  session_type :: pg_text
  status :: pg_text
  source_language :: pg_text
  s_target_language :: pg_text
  message_count :: int
  mode :: "pg_text option"
  level :: "pg_text option"
  s_is_active :: "bool option"
  summary :: "pg_text option"

record messages_row = row +
  session_id :: uuid
  message_type :: pg_text
  content :: pg_text
  msg_metadata :: "jsonb option"
  corrections :: "jsonb option"
  micro_exercise :: "pg_text option"
  role :: "pg_text option"

record database =
  tbl_users :: "users_row list"
  tbl_sessions :: "sessions_row list"
  tbl_messages :: "messages_row list"

definition empty_db :: database where
  "empty_db = \<lparr>tbl_users = [], tbl_sessions = [], tbl_messages = []\<rparr>"

subsection \<open>Column coercion and \<open>CHECK\<close> constraints\<close>

definition users_coerce :: "users_row \<Rightarrow> db_error + users_row" where
  "users_coerce r =
     bind_err (varchar 50 (username r)) (\<lambda>un.
     bind_err (varchar 255 (email r)) (\<lambda>em.
     bind_err (varchar 255 (password_hash r)) (\<lambda>pw.
     bind_err (varchar 10 (native_language r)) (\<lambda>nl.
     bind_err (varchar 10 (target_language r)) (\<lambda>tl.
     bind_err (varchar 20 (proficiency_level r)) (\<lambda>pl.
       Inr (r\<lparr>username := un, email := em, password_hash := pw, native_language := nl,
             target_language := tl, proficiency_level := pl\<rparr>)))))))"

definition sessions_coerce :: "sessions_row \<Rightarrow> db_error + sessions_row" where
  "sessions_coerce r =
     bind_err (varchar 200 (title r)) (\<lambda>ti.
     bind_err (varchar 20 (session_type r)) (\<lambda>ty.
     bind_err (varchar 20 (status r)) (\<lambda>st.
     bind_err (varchar 10 (source_language r)) (\<lambda>sl.
     bind_err (varchar 10 (s_target_language r)) (\<lambda>tl.
     bind_err (int4 (message_count r)) (\<lambda>mc.
     bind_err (varchar_null 10 (mode r)) (\<lambda>mo.
     bind_err (varchar_null 5 (level r)) (\<lambda>le.
       Inr (r\<lparr>title := ti, session_type := ty, status := st, source_language := sl,
             s_target_language := tl, message_count := mc, mode := mo, level := le\<rparr>)))))))))"

definition messages_coerce :: "messages_row \<Rightarrow> db_error + messages_row" where
  "messages_coerce r =
     bind_err (varchar 20 (message_type r)) (\<lambda>ty.
     bind_err (varchar_null 10 (role r)) (\<lambda>ro.
       Inr (r\<lparr>message_type := ty, role := ro\<rparr>)))"

text \<open>
  The pattern of \<open>users_email_format\<close>,
  \<^verbatim>\<open>^[A-Za-z0-9._%+-]+@[A-Za-z0-9.-]+\.[A-Za-z]{2,}$\<close>: neither bracket admits
  \<open>@\<close>, so the local part ends at the first \<open>@\<close>; the last bracket admits no dot,
  so the final label starts after the last dot. The match is case-insensitive
  (\<open>~*\<close>), which adds nothing to brackets that hold both cases of the ASCII letters.
\<close>

definition is_alpha :: "nat \<Rightarrow> bool" where
  "is_alpha c \<longleftrightarrow> (0x41 \<le> c \<and> c \<le> 0x5A) \<or> (0x61 \<le> c \<and> c \<le> 0x7A)"

definition is_alnum :: "nat \<Rightarrow> bool" where
  "is_alnum c \<longleftrightarrow> is_alpha c \<or> (0x30 \<le> c \<and> c \<le> 0x39)"

definition email_local_char :: "nat \<Rightarrow> bool" where
  "email_local_char c \<longleftrightarrow> is_alnum c \<or> c \<in> set (str ''._%+-'')"

definition email_domain_char :: "nat \<Rightarrow> bool" where
  "email_domain_char c \<longleftrightarrow> is_alnum c \<or> c \<in> set (str ''.-'')"

definition email_format :: "pg_text \<Rightarrow> bool" where
  "email_format s =
     (let local = takeWhile (\<lambda>c. c \<noteq> 0x40) s;
          rest = drop (Suc (length local)) s;
          label = rev (takeWhile (\<lambda>c. c \<noteq> 0x2E) (rev rest));
          domain = take (length rest - Suc (length label)) rest
      in length local < length s \<and> local \<noteq> [] \<and> list_all email_local_char local \<and>
         length label < length rest \<and> domain \<noteq> [] \<and> list_all email_domain_char domain \<and>
         2 \<le> length label \<and> list_all is_alpha label)"

text \<open>
  The \<open>CHECK\<close> constraints of a table are evaluated in the order of their names;
  the first that is false is the error. A \<open>CHECK\<close> whose value is NULL passes.
\<close>

definition users_checks :: "users_row \<Rightarrow> db_error option" where
  "users_checks r =
     (if \<not> (native_language r \<noteq> target_language r)
        then Some (Check_violation ''users_different_languages'')
      else if \<not> email_format (email r)
        then Some (Check_violation ''users_email_format'')
      else if \<not> (length (username r) \<ge> 3)
        then Some (Check_violation ''users_username_length'')
      else if proficiency_level r \<notin> set (map str [''beginner'', ''intermediate'',
          ''advanced'', ''native'', ''A1'', ''A2'', ''B1'', ''B2'', ''C1'', ''C2''])
        then Some (Check_violation ''users_valid_proficiency'')
      else None)"

definition in_or_null :: "pg_text option \<Rightarrow> string list \<Rightarrow> bool" where
  "in_or_null v allowed = (case v of None \<Rightarrow> True | Some s \<Rightarrow> s \<in> set (map str allowed))"

definition sessions_checks :: "sessions_row \<Rightarrow> db_error option" where
  "sessions_checks r =
     (if \<not> in_or_null (level r) [''A1'', ''A2'', ''B1'', ''B2'', ''C1'', ''C2'']
        then Some (Check_violation ''sessions_valid_level'')
      else if \<not> in_or_null (mode r)
          [''CONVERSATION'', ''GRAMMAR'', ''VOCABULARY'', ''tutor'', ''buddy'']
        then Some (Check_violation ''sessions_valid_mode'')
      else if status r \<notin> set (map str [''active'', ''paused'', ''completed'', ''archived''])
        then Some (Check_violation ''sessions_valid_status'')
      else if session_type r \<notin> set (map str [''conversation'', ''grammar'', ''vocabulary'',
          ''pronunciation''])
        then Some (Check_violation ''sessions_valid_type'')
      else None)"

definition messages_checks :: "messages_row \<Rightarrow> db_error option" where
  "messages_checks r =
     (if \<not> (length (TRIM (content r)) > 0)
        then Some (Check_violation ''messages_content_not_empty'')
      else if \<not> in_or_null (role r) [''USER'', ''ASSISTANT'']
        then Some (Check_violation ''messages_valid_role'')
      else if message_type r \<notin> set (map str [''user'', ''assistant'', ''system''])
        then Some (Check_violation ''messages_valid_type'')
      else None)"

subsection \<open>Statements\<close>

text \<open>
  A statement either fails with an error, and then changes nothing, or yields the
  next database. \<open>now\<close> is the value of \<open>NOW()\<close> in the statement's transaction.
\<close>

fun for_each :: "('a \<Rightarrow> 's \<Rightarrow> db_error + 's) \<Rightarrow> 'a list \<Rightarrow> 's \<Rightarrow> db_error + 's" where
  "for_each f [] s = Inr s"
| "for_each f (x # xs) s = (case f x s of Inl e \<Rightarrow> Inl e | Inr s' \<Rightarrow> for_each f xs s')"

fun first_error :: "('a \<Rightarrow> db_error option) \<Rightarrow> 'a list \<Rightarrow> db_error option" where
  "first_error chk [] = None"
| "first_error chk (x # xs) = (case chk x of Some e \<Rightarrow> Some e | None \<Rightarrow> first_error chk xs)"

text \<open>
  \<open>UPDATE ... WHERE P\<close> visits the rows one after the other. \<open>upd others OLD\<close>
  computes the new version of a row that satisfies \<open>P\<close>, given the other rows of the
  table as they are at that moment.
\<close>

fun update_each ::
  "('r \<Rightarrow> bool) \<Rightarrow> ('r list \<Rightarrow> 'r \<Rightarrow> db_error + 'r) \<Rightarrow> 'r list \<Rightarrow> 'r list \<Rightarrow> db_error + 'r list"
where
  "update_each P upd prior [] = Inr prior"
| "update_each P upd prior (r # rs) =
     (if P r
      then (case upd (prior @ rs) r of
              Inl e \<Rightarrow> Inl e
            | Inr r' \<Rightarrow> update_each P upd (prior @ [r']) rs)
      else update_each P upd (prior @ [r]) rs)"

text \<open>The trigger function \<open>update_updated_at_column\<close> (lines 141--147), on \<open>NEW\<close>.\<close>

definition update_updated_at_column ::
  "timestamptz \<Rightarrow> 'a audited_row_scheme \<Rightarrow> 'a audited_row_scheme" where
  "update_updated_at_column now NEW = NEW\<lparr>updated_at := Some now\<rparr>"

text \<open>
  One row of \<open>UPDATE users\<close>: \<open>set_clause\<close> evaluates the \<open>SET\<close> list on the old
  row (coercing what it assigns); the \<open>BEFORE UPDATE\<close> trigger
  \<open>update_users_updated_at\<close> then rewrites \<open>NEW\<close>; the result is checked and, where
  a key value changed, compared with the other rows.
\<close>

definition users_update_row ::
  "(users_row \<Rightarrow> db_error + users_row) \<Rightarrow> timestamptz \<Rightarrow> users_row list \<Rightarrow> users_row
     \<Rightarrow> db_error + users_row" where
  "users_update_row set_clause now others OLD =
     bind_err (set_clause OLD) (\<lambda>NEW0.
       let NEW = update_updated_at_column now NEW0 in
       case users_checks NEW of
         Some e \<Rightarrow> Inl e
       | None \<Rightarrow>
           if row_id NEW \<noteq> row_id OLD \<and> row_id NEW \<in> row_id ` set others
             then Inl (Unique_violation ''users_pkey'')
           else if username NEW \<noteq> username OLD \<and> username NEW \<in> username ` set others
             then Inl (Unique_violation ''users_username_key'')
           else if email NEW \<noteq> email OLD \<and> email NEW \<in> email ` set others
             then Inl (Unique_violation ''users_email_key'')
           else Inr NEW)"

text \<open>
  \<open>sessions.user_id\<close> references \<open>users(id)\<close> with no \<open>ON UPDATE\<close> action: a
  key that the statement removed from \<open>users\<close> must not be referenced.
\<close>

definition users_update_fk :: "database \<Rightarrow> users_row list \<Rightarrow> users_row \<Rightarrow> db_error option" where
  "users_update_fk db rows OLD =
     (if row_id OLD \<notin> row_id ` set rows \<and> row_id OLD \<in> user_id ` set (tbl_sessions db)
      then Some (Foreign_key_violation ''sessions_user_id_fkey'') else None)"

definition update_users ::
  "(users_row \<Rightarrow> bool) \<Rightarrow> (users_row \<Rightarrow> db_error + users_row) \<Rightarrow> timestamptz \<Rightarrow> database
     \<Rightarrow> db_error + database" where
  "update_users P set_clause now db =
     bind_err (update_each P (users_update_row set_clause now) [] (tbl_users db)) (\<lambda>rows.
       case first_error (users_update_fk db rows) (tbl_users db) of
         Some e \<Rightarrow> Inl e
       | None \<Rightarrow> Inr (db\<lparr>tbl_users := rows\<rparr>))"

definition sessions_update_row ::
  "(sessions_row \<Rightarrow> db_error + sessions_row) \<Rightarrow> timestamptz \<Rightarrow> sessions_row list
     \<Rightarrow> sessions_row \<Rightarrow> db_error + sessions_row" where
  "sessions_update_row set_clause now others OLD =
     bind_err (set_clause OLD) (\<lambda>NEW0.
       let NEW = update_updated_at_column now NEW0 in
       case sessions_checks NEW of
         Some e \<Rightarrow> Inl e
       | None \<Rightarrow>
           if row_id NEW \<noteq> row_id OLD \<and> row_id NEW \<in> row_id ` set others
             then Inl (Unique_violation ''sessions_pkey'')
           else Inr NEW)"

text \<open>
  After an \<open>UPDATE sessions\<close>, per row: a key that the statement removed from
  \<open>sessions\<close> must not be referenced by \<open>messages\<close>, and a changed \<open>user_id\<close>
  must reference a user.
\<close>

definition sessions_update_fk ::
  "database \<Rightarrow> sessions_row list \<Rightarrow> sessions_row \<times> sessions_row \<Rightarrow> db_error option" where
  "sessions_update_fk db rows on =
     (let OLD = fst on; NEW = snd on in
      if row_id OLD \<notin> row_id ` set rows \<and> row_id OLD \<in> session_id ` set (tbl_messages db)
        then Some (Foreign_key_violation ''messages_session_id_fkey'')
      else if user_id NEW \<noteq> user_id OLD \<and> user_id NEW \<notin> row_id ` set (tbl_users db)
        then Some (Foreign_key_violation ''sessions_user_id_fkey'')
      else None)"

definition update_sessions ::
  "(sessions_row \<Rightarrow> bool) \<Rightarrow> (sessions_row \<Rightarrow> db_error + sessions_row) \<Rightarrow> timestamptz
     \<Rightarrow> database \<Rightarrow> db_error + database" where
  "update_sessions P set_clause now db =
     bind_err (update_each P (sessions_update_row set_clause now) [] (tbl_sessions db)) (\<lambda>rows.
       case first_error (sessions_update_fk db rows) (zip (tbl_sessions db) rows) of
         Some e \<Rightarrow> Inl e
       | None \<Rightarrow> Inr (db\<lparr>tbl_sessions := rows\<rparr>))"

text \<open>
  Lines 163--181 are meant to create a second trigger function,
  \<open>update_session_message_count\<close>, and lines 184--194 to put it on \<open>messages\<close>
  after every insert and delete. The \<open>CREATE FUNCTION\<close> statement opens and closes
  the function body with a single dollar sign; a dollar-quoted string needs \<open>$$\<close>
  (as \<open>update_updated_at_column\<close> has it, lines 142 and 147) or \<open>$tag$\<close>, so the
  statement is a syntax error and creates nothing, and the two \<open>CREATE TRIGGER\<close>
  statements fail for want of the function. The schema that the script leaves
  behind therefore has no trigger on \<open>messages\<close>: the only triggers are the two
  \<open>BEFORE UPDATE\<close> triggers above.
\<close>

text \<open>
  \<open>INSERT\<close> of one row, given with the \<open>DEFAULT\<close> of every omitted column filled
  in. The row is coerced to the column types and checked; then come the unique
  indexes and the foreign key. \<open>now\<close> is the statement's \<open>NOW()\<close>; with no trigger
  on \<open>messages\<close>, nothing in an insert or a delete of messages reads it.
\<close>

definition insert_users :: "users_row \<Rightarrow> database \<Rightarrow> db_error + database" where
  "insert_users r db =
     bind_err (users_coerce r) (\<lambda>NEW.
       case users_checks NEW of
         Some e \<Rightarrow> Inl e
       | None \<Rightarrow>
           if row_id NEW \<in> row_id ` set (tbl_users db)
             then Inl (Unique_violation ''users_pkey'')
           else if username NEW \<in> username ` set (tbl_users db)
             then Inl (Unique_violation ''users_username_key'')
           else if email NEW \<in> email ` set (tbl_users db)
             then Inl (Unique_violation ''users_email_key'')
           else Inr (db\<lparr>tbl_users := tbl_users db @ [NEW]\<rparr>))"

definition insert_sessions :: "sessions_row \<Rightarrow> database \<Rightarrow> db_error + database" where
  "insert_sessions r db =
     bind_err (sessions_coerce r) (\<lambda>NEW.
       case sessions_checks NEW of
         Some e \<Rightarrow> Inl e
       | None \<Rightarrow>
           if row_id NEW \<in> row_id ` set (tbl_sessions db)
             then Inl (Unique_violation ''sessions_pkey'')
           else if user_id NEW \<notin> row_id ` set (tbl_users db)
             then Inl (Foreign_key_violation ''sessions_user_id_fkey'')
           else Inr (db\<lparr>tbl_sessions := tbl_sessions db @ [NEW]\<rparr>))"

definition insert_messages :: "messages_row \<Rightarrow> timestamptz \<Rightarrow> database \<Rightarrow> db_error + database" where
  "insert_messages r now db =
     bind_err (messages_coerce r) (\<lambda>NEW.
       case messages_checks NEW of
         Some e \<Rightarrow> Inl e
       | None \<Rightarrow>
           if row_id NEW \<in> row_id ` set (tbl_messages db)
             then Inl (Unique_violation ''messages_pkey'')
           else if session_id NEW \<notin> row_id ` set (tbl_sessions db)
             then Inl (Foreign_key_violation ''messages_session_id_fkey'')
           else Inr (db\<lparr>tbl_messages := tbl_messages db @ [NEW]\<rparr>))"

text \<open>
  \<open>DELETE ... WHERE P\<close> removes the rows; on \<open>sessions\<close> and \<open>users\<close> the
  \<open>ON DELETE CASCADE\<close> action then fires for each removed row and deletes the
  referencing rows by a statement of its own.
\<close>

definition delete_messages ::
  "(messages_row \<Rightarrow> bool) \<Rightarrow> timestamptz \<Rightarrow> database \<Rightarrow> db_error + database" where
  "delete_messages P now db =
     Inr (db\<lparr>tbl_messages := filter (\<lambda>m. \<not> P m) (tbl_messages db)\<rparr>)"

definition delete_sessions ::
  "(sessions_row \<Rightarrow> bool) \<Rightarrow> timestamptz \<Rightarrow> database \<Rightarrow> db_error + database" where
  "delete_sessions P now db =
     for_each (\<lambda>OLD. delete_messages (\<lambda>m. session_id m = row_id OLD) now)
       (filter P (tbl_sessions db))
       (db\<lparr>tbl_sessions := filter (\<lambda>s. \<not> P s) (tbl_sessions db)\<rparr>)"

definition delete_users ::
  "(users_row \<Rightarrow> bool) \<Rightarrow> timestamptz \<Rightarrow> database \<Rightarrow> db_error + database" where
  "delete_users P now db =
     for_each (\<lambda>OLD. delete_sessions (\<lambda>s. user_id s = row_id OLD) now)
       (filter P (tbl_users db))
       (db\<lparr>tbl_users := filter (\<lambda>u. \<not> P u) (tbl_users db)\<rparr>)"

text \<open>A workload is a sequence of statements, each with its \<open>NOW()\<close>; a statement
  that raises is rolled back and leaves the database as it was.\<close>

datatype statement =
  Insert_user users_row
  | Insert_session sessions_row
  | Insert_message messages_row
  | Update_users "users_row \<Rightarrow> bool" "users_row \<Rightarrow> db_error + users_row"
  | Update_sessions "sessions_row \<Rightarrow> bool" "sessions_row \<Rightarrow> db_error + sessions_row"
  | Delete_users "users_row \<Rightarrow> bool"
  | Delete_sessions "sessions_row \<Rightarrow> bool"
  | Delete_messages "messages_row \<Rightarrow> bool"

fun execute :: "statement \<Rightarrow> timestamptz \<Rightarrow> database \<Rightarrow> db_error + database" where
  "execute (Insert_user r) now db = insert_users r db"
| "execute (Insert_session r) now db = insert_sessions r db"
| "execute (Insert_message r) now db = insert_messages r now db"
| "execute (Update_users P set_clause) now db = update_users P set_clause now db"
| "execute (Update_sessions P set_clause) now db = update_sessions P set_clause now db"
| "execute (Delete_users P) now db = delete_users P now db"
| "execute (Delete_sessions P) now db = delete_sessions P now db"
| "execute (Delete_messages P) now db = delete_messages P now db"

definition commit :: "database \<Rightarrow> timestamptz \<times> statement \<Rightarrow> database" where
  "commit db ts = (case execute (snd ts) (fst ts) db of Inl e \<Rightarrow> db | Inr db' \<Rightarrow> db')"

definition workload :: "database \<Rightarrow> (timestamptz \<times> statement) list \<Rightarrow> database" where
  "workload db sts = foldl commit db sts"

subsection \<open>Notions used to state the properties\<close>

text \<open>
  The row of \<open>INSERT INTO sessions (id, user_id) VALUES (sid, uid)\<close>: every other
  column takes its \<open>DEFAULT\<close> (lines 62--78).
\<close>

definition new_session :: "uuid \<Rightarrow> uuid \<Rightarrow> timestamptz \<Rightarrow> sessions_row" where
  "new_session sid uid now =
     \<lparr>row_id = sid, created_at = Some now, updated_at = Some now, user_id = uid,
      title = str ''Chat Session'', session_type = str ''conversation'',
      status = str ''active'', source_language = str ''TR'', s_target_language = str ''EN'',
      message_count = 0, mode = None, level = None, s_is_active = Some True,
      summary = None\<rparr>"

fun is_message_statement :: "statement \<Rightarrow> bool" where
  "is_message_statement (Insert_message r) = True"
| "is_message_statement (Delete_messages P) = True"
| "is_message_statement st = False"

text \<open>
  The number of message rows referencing \<open>S\<close> that a statement inserts, and that it
  deletes; a statement that raises does neither.
\<close>

fun inserts_into :: "uuid \<Rightarrow> statement \<Rightarrow> timestamptz \<Rightarrow> database \<Rightarrow> nat" where
  "inserts_into S (Insert_message r) now db =
     (case insert_messages r now db of
        Inl e \<Rightarrow> 0
      | Inr db' \<Rightarrow> if session_id r = S then 1 else 0)"
| "inserts_into S st now db = 0"

fun deletes_from :: "uuid \<Rightarrow> statement \<Rightarrow> timestamptz \<Rightarrow> database \<Rightarrow> nat" where
  "deletes_from S (Delete_messages P) now db =
     (case delete_messages P now db of
        Inl e \<Rightarrow> 0
      | Inr db' \<Rightarrow> length (filter (\<lambda>m. P m \<and> session_id m = S) (tbl_messages db)))"
| "deletes_from S st now db = 0"

fun inserts_total :: "uuid \<Rightarrow> database \<Rightarrow> (timestamptz \<times> statement) list \<Rightarrow> nat" where
  "inserts_total S db [] = 0"
| "inserts_total S db (ts # sts) =
     inserts_into S (snd ts) (fst ts) db + inserts_total S (commit db ts) sts"

fun deletes_total :: "uuid \<Rightarrow> database \<Rightarrow> (timestamptz \<times> statement) list \<Rightarrow> nat" where
  "deletes_total S db [] = 0"
| "deletes_total S db (ts # sts) =
     deletes_from S (snd ts) (fst ts) db + deletes_total S (commit db ts) sts"

text \<open>
  White space in the usual sense of the word: TAB, LF, VT, FF, CR and the space.
\<close>

definition white_space_only :: "pg_text \<Rightarrow> bool" where
  "white_space_only s = list_all (\<lambda>c. c \<in> {0x09, 0x0A, 0x0B, 0x0C, 0x0D, 0x20}) s"

text \<open>
  The errors of SQLSTATE class 23, integrity constraint violation; the other two
  are data exceptions (class 22).
\<close>

fun constraint_violation :: "db_error \<Rightarrow> bool" where
  "constraint_violation (Check_violation c) = True"
| "constraint_violation (Unique_violation c) = True"
| "constraint_violation (Foreign_key_violation c) = True"
| "constraint_violation String_data_right_truncation = False"
| "constraint_violation Numeric_value_out_of_range = False"

subsection \<open>Example rows\<close>

text \<open>The sample user of the script (lines 261--262) and rows to go with it.\<close>

definition example_user :: users_row where
  "example_user =
     \<lparr>row_id = 1, created_at = Some 0, updated_at = Some 0, username = str ''demo_user'',
      email = str ''demo@example.com'',
      password_hash = str ''$2b$12$LQv3c1yqBw2LeOiMi9rXaOEkVxaAhBxQHjLvukJUnQ.xHjLiOzZui'',
      is_active = True, native_language = str ''TR'', target_language = str ''EN'',
      proficiency_level = str ''A2''\<rparr>"

definition example_message :: "uuid \<Rightarrow> uuid \<Rightarrow> pg_text \<Rightarrow> messages_row" where
  "example_message mid sid txt =
     \<lparr>row_id = mid, created_at = Some 0, session_id = sid, message_type = str ''user'',
      content = txt, msg_metadata = None, corrections = None, micro_exercise = None,
      role = None\<rparr>"

definition example_db :: database where
  "example_db = \<lparr>tbl_users = [example_user], tbl_sessions = [new_session 10 1 0], tbl_messages = []\<rparr>"

definition cascade_db :: database where
  "cascade_db =
     \<lparr>tbl_users = [example_user,
        example_user\<lparr>row_id := 2, username := str ''other'', email := str ''other@example.com''\<rparr>],
      tbl_sessions = [(new_session 10 1 0)\<lparr>message_count := 1\<rparr>,
        (new_session 11 1 0)\<lparr>message_count := 1\<rparr>, (new_session 20 2 0)\<lparr>message_count := 1\<rparr>],
      tbl_messages = [example_message 100 10 (str ''a''), example_message 101 11 (str ''b''),
        example_message 200 20 (str ''c'')]\<rparr>"

section \<open>Properties of the chat client\<close>

subsection \<open>Blank input\<close>

lemma trim_both_Nil_iff:
  "rev (dropWhile w (rev (dropWhile w s))) = [] \<longleftrightarrow> list_all w s"
proof
  assume "rev (dropWhile w (rev (dropWhile w s))) = []"
  then have a: "\<forall>x\<in>set (dropWhile w s). w x" by simp
  have "dropWhile w s = []"
  proof (rule ccontr)
    assume n: "dropWhile w s \<noteq> []"
    then have "\<not> w (hd (dropWhile w s))" by (rule hd_dropWhile)
    moreover have "hd (dropWhile w s) \<in> set (dropWhile w s)" using n by simp
    ultimately show False using a by blast
  qed
  then show "list_all w s" by (simp add: list_all_iff)
next
  assume "list_all w s"
  then show "rev (dropWhile w (rev (dropWhile w s))) = []"
    by (auto simp: list_all_iff dest: set_dropWhileD)
qed

lemma js_trim_Nil_iff: "js_trim s = [] \<longleftrightarrow> list_all js_white_space s"
  unfolding js_trim_def by (rule trim_both_Nil_iff)

text \<open>
  C7. A submit whose input is empty or consists only of white space returns at the
  guard of line 27: the whole component state is as before, so no message is
  appended, no request is sent and the session id is untouched.
\<close>

theorem blank_submit_is_noop:
  assumes "list_all js_white_space (inputValue c)"
  shows "handleSubmit c = c"
  using assms by (simp add: handleSubmit_def js_trim_Nil_iff)

theorem blank_submit_is_noop_witness:
  "list_all js_white_space (inputValue (initial\<lparr>inputValue := [0x20, 0x09, 0x0A]\<rparr>)) \<and>
   messages (handleSubmit (initial\<lparr>inputValue := [0x20, 0x09, 0x0A]\<rparr>)) = [] \<and>
   outbox (handleSubmit (initial\<lparr>inputValue := [0x20, 0x09, 0x0A]\<rparr>)) = [] \<and>
   sessionId (handleSubmit (initial\<lparr>inputValue := [0x20, 0x09, 0x0A]\<rparr>)) = None"
  using blank_submit_is_noop [of "initial\<lparr>inputValue := [0x20, 0x09, 0x0A]\<rparr>"]
  by (simp add: initial_def js_white_space_def)

subsection \<open>Requests and responses\<close>

lemma messages_catch_block:
  "messages (catch_block c) =
     messages c @
       [\<lparr>msg_text = ascii ''Sorry, I couldn't process your request. Please try again.'',
         sender = Bot\<rparr>]"
  by (simp add: catch_block_def)

lemma resume_failed:
  "fetch_failed r \<Longrightarrow> handleSubmit_resume cap r c = catch_block c"
  by (cases r) (simp_all add: handleSubmit_resume_def)

lemma messages_step_extends: "\<exists>ys. messages (step c e) = messages c @ ys"
  by (cases e)
    (auto simp: handleSubmit_def handleSubmit_resume_def catch_block_def Let_def
      split: option.splits fetch_result.splits json_body.splits)

lemma messages_run_extends: "\<exists>ys. messages (run c es) = messages c @ ys"
proof (induction es arbitrary: c)
  case Nil
  show ?case by (simp add: run_def)
next
  case (Cons e es)
  obtain ys where ys: "messages (step c e) = messages c @ ys"
    using messages_step_extends by blast
  obtain zs where zs: "messages (run (step c e) es) = messages (step c e) @ zs"
    using Cons.IH by blast
  have "run c (e # es) = run (step c e) es" by (simp add: run_def)
  with ys zs show ?case by simp
qed

lemma outbox_step_settle: "outbox (step c (Settle k r)) = outbox c"
  by (auto simp: handleSubmit_resume_def catch_block_def Let_def
      split: option.splits fetch_result.splits json_body.splits)

lemma pending_step_keeps:
  assumes "pending c k = Some cap" "k < length (outbox c)" "\<not> settles k e"
  shows "pending (step c e) k = Some cap \<and> k < length (outbox (step c e))"
proof (cases e)
  case (Set_input v)
  with assms show ?thesis by simp
next
  case Submit
  with assms show ?thesis by (simp add: handleSubmit_def Let_def)
next
  case (Settle j r)
  with assms have "j \<noteq> k" by simp
  with assms Settle show ?thesis
    by (auto simp: handleSubmit_resume_def catch_block_def Let_def
        split: option.splits fetch_result.splits json_body.splits)
qed

lemma pending_run_keeps:
  assumes "pending c k = Some cap" "k < length (outbox c)" "\<not> list_ex (settles k) es"
  shows "pending (run c es) k = Some cap"
  using assms
proof (induction es arbitrary: c)
  case Nil
  then show ?case by (simp add: run_def)
next
  case (Cons e es)
  from Cons.prems have e: "\<not> settles k e" and es: "\<not> list_ex (settles k) es" by simp_all
  from pending_step_keeps [OF Cons.prems(1,2) e]
  have "pending (run (step c e) es) k = Some cap"
    using Cons.IH es by blast
  then show ?case by (simp add: run_def)
qed

text \<open>
  C3. Take a submit of non-blank input and let anything happen before its fetch
  settles, except that fetch settling. When it then fails (the promise rejects or
  the status is not 2xx), exactly one message is appended, the bot message with the
  text \<open>Sorry, I couldn't process your request. Please try again.\<close>, and the user
  message that the submit appended is still at its place in the history, unchanged.
\<close>

theorem failed_fetch_appends_fallback:
  assumes "\<not> list_all js_white_space (inputValue c)"
    and "fetch_failed r"
    and "\<not> list_ex (settles (length (outbox c))) es"
  shows "messages (step (run (handleSubmit c) es) (Settle (length (outbox c)) r)) =
           messages (run (handleSubmit c) es) @
             [\<lparr>msg_text = ascii ''Sorry, I couldn't process your request. Please try again.'',
               sender = Bot\<rparr>] \<and>
         take (Suc (length (messages c))) (messages (run (handleSubmit c) es)) =
           messages c @ [\<lparr>msg_text = inputValue c, sender = User\<rparr>]"
proof -
  let ?k = "length (outbox c)"
  let ?c0 = "handleSubmit c"
  let ?c1 = "run ?c0 es"
  from assms(1) have nb: "js_trim (inputValue c) \<noteq> []" by (simp add: js_trim_Nil_iff)
  then have p0: "pending ?c0 ?k = Some (sessionId c)" and k0: "?k < length (outbox ?c0)"
    and m0: "messages ?c0 = messages c @ [\<lparr>msg_text = inputValue c, sender = User\<rparr>]"
    by (simp_all add: handleSubmit_def Let_def)
  have p1: "pending ?c1 ?k = Some (sessionId c)"
    by (rule pending_run_keeps [OF p0 k0 assms(3)])
  have "step ?c1 (Settle ?k r) = catch_block (?c1\<lparr>pending := (pending ?c1)(?k := None)\<rparr>)"
    using p1 assms(2) by (simp add: resume_failed)
  then have a: "messages (step ?c1 (Settle ?k r)) =
      messages ?c1 @
        [\<lparr>msg_text = ascii ''Sorry, I couldn't process your request. Please try again.'',
          sender = Bot\<rparr>]"
    by (simp add: messages_catch_block)
  obtain ys where "messages ?c1 = messages ?c0 @ ys"
    using messages_run_extends by blast
  with m0 have b: "take (Suc (length (messages c))) (messages ?c1) =
      messages c @ [\<lparr>msg_text = inputValue c, sender = User\<rparr>]"
    by simp
  from a b show ?thesis by blast
qed

theorem failed_fetch_appends_fallback_witness:
  "\<not> list_all js_white_space (inputValue (initial\<lparr>inputValue := [0x68, 0x69]\<rparr>)) \<and>
   fetch_failed (Http_response 500 Invalid_json) \<and>
   fetch_failed Network_error \<and>
   \<not> list_ex (settles (length (outbox (initial\<lparr>inputValue := [0x68, 0x69]\<rparr>))))
        [Set_input [0x79], Submit] \<and>
   messages (run initial
      [Set_input [0x68, 0x69], Submit, Set_input [0x79], Submit,
       Settle 0 (Http_response 500 Invalid_json)]) =
     [\<lparr>msg_text = [0x68, 0x69], sender = User\<rparr>, \<lparr>msg_text = [0x79], sender = User\<rparr>,
      \<lparr>msg_text =
         [83, 111, 114, 114, 121, 44, 32, 73, 32, 99, 111, 117, 108, 100, 110,
          39, 116, 32, 112, 114, 111, 99, 101, 115, 115, 32, 121, 111, 117, 114,
          32, 114, 101, 113, 117, 101, 115, 116, 46, 32, 80, 108, 101, 97, 115,
          101, 32, 116, 114, 121, 32, 97, 103, 97, 105, 110, 46],
       sender = Bot\<rparr>]"
proof -
  have t: "ascii ''Sorry, I couldn't process your request. Please try again.'' =
         [83, 111, 114, 114, 121, 44, 32, 73, 32, 99, 111, 117, 108, 100, 110,
          39, 116, 32, 112, 114, 111, 99, 101, 115, 115, 32, 121, 111, 117, 114,
          32, 114, 101, 113, 117, 101, 115, 116, 46, 32, 80, 108, 101, 97, 115,
          101, 32, 116, 114, 121, 32, 97, 103, 97, 105, 110, 46]"
    by (simp add: ascii_def)
  from failed_fetch_appends_fallback [of "initial\<lparr>inputValue := [0x68, 0x69]\<rparr>"
      "Http_response 500 Invalid_json" "[Set_input [0x79], Submit]"]
  show ?thesis
    unfolding t
    by (simp add: run_def initial_def handleSubmit_def js_trim_def js_white_space_def
        response_ok_def Let_def)
qed

text \<open>
  C9, as the code has it. A submit of non-blank input sends exactly one request, a
  blank one sends none, and nothing else sends a request: a settled fetch is never
  repeated. Nothing makes a submit wait for an earlier request.
\<close>

theorem one_request_per_submit:
  "outbox (handleSubmit c) =
     (if list_all js_white_space (inputValue c) then outbox c
      else outbox c @ [\<lparr>req_role = ascii ''user'', req_content = inputValue c,
             req_session_id = (if truthy (sessionId c) then sessionId c else None)\<rparr>]) \<and>
   outbox (step c (Settle k r)) = outbox c \<and>
   outbox (step c (Set_input v)) = outbox c"
  by (simp add: handleSubmit_def js_trim_Nil_iff Let_def outbox_step_settle del: step.simps(3))

theorem one_request_per_submit_witness:
  "outbox (handleSubmit (initial\<lparr>inputValue := [0x68, 0x69]\<rparr>)) =
     [\<lparr>req_role = ascii ''user'', req_content = [0x68, 0x69], req_session_id = None\<rparr>] \<and>
   outbox (step (handleSubmit (initial\<lparr>inputValue := [0x68, 0x69]\<rparr>)) (Settle 0 Network_error)) =
     outbox (handleSubmit (initial\<lparr>inputValue := [0x68, 0x69]\<rparr>))"
  using one_request_per_submit [of "initial\<lparr>inputValue := [0x68, 0x69]\<rparr>" 0 Network_error "[]"]
    one_request_per_submit [of "handleSubmit (initial\<lparr>inputValue := [0x68, 0x69]\<rparr>)" 0 Network_error "[]"]
  by (simp add: initial_def js_white_space_def truthy_def)

text \<open>
  C9 as stated fails: after two submits and before any response, two requests are
  in flight.
\<close>

theorem two_requests_in_flight:
  "\<not> length (in_flight (run initial [Set_input [0x61], Submit, Set_input [0x62], Submit])) \<le> 1"
  by (simp add: run_def initial_def handleSubmit_def js_trim_def js_white_space_def
      Let_def in_flight_def upt_rec)

lemma request_carries_session_id:
  assumes "\<not> list_all js_white_space (inputValue c)"
  shows "req_session_id (last (outbox (handleSubmit c))) =
    (if truthy (sessionId c) then sessionId c else None)"
  using assms by (simp add: handleSubmit_def js_trim_Nil_iff Let_def)

lemma resume_keeps_session_id:
  assumes "truthy captured"
  shows "sessionId (handleSubmit_resume captured r c) = sessionId c"
  using assms
  by (auto simp: handleSubmit_resume_def catch_block_def Let_def
      split: fetch_result.splits json_body.splits)

lemma resume_sets_session_id:
  assumes "\<not> truthy captured" "response_ok code" "truthy sid"
  shows "sessionId (handleSubmit_resume captured (Http_response code (Json_object sid txt)) c) = sid"
  using assms by (simp add: handleSubmit_resume_def Let_def)

text \<open>
  C10. Two submits before the first response both capture \<open>sessionId = null\<close>;
  the first response sets the session id, and the second response, whose guard
  \<open>!sessionId\<close> reads the captured null, sets it again to another value.
\<close>

theorem session_id_overwritten:
  "sessionId (run initial
      [Set_input [0x61], Submit, Set_input [0x62], Submit,
       Settle 0 (Http_response 200 (Json_object (Some [0x41]) [0x78]))]) = Some [0x41] \<and>
   sessionId (run initial
      [Set_input [0x61], Submit, Set_input [0x62], Submit,
       Settle 0 (Http_response 200 (Json_object (Some [0x41]) [0x78])),
       Settle 1 (Http_response 200 (Json_object (Some [0x42]) [0x79]))]) = Some [0x42]"
  by (simp add: run_def initial_def handleSubmit_def handleSubmit_resume_def js_trim_def
      js_white_space_def response_ok_def truthy_def Let_def)

section \<open>Properties of the schema\<close>

subsection \<open>Updates and the timestamp trigger\<close>

lemma bind_err_Inr_iff: "bind_err r f = Inr y \<longleftrightarrow> (\<exists>x. r = Inr x \<and> f x = Inr y)"
  by (cases r) (simp_all add: bind_err_def)

lemma bind_err_Inl_iff: "bind_err r f = Inl e \<longleftrightarrow> r = Inl e \<or> (\<exists>x. r = Inr x \<and> f x = Inl e)"
  by (cases r) (simp_all add: bind_err_def)

lemma update_each_shape:
  "update_each P upd prior rs = Inr out \<Longrightarrow>
   \<exists>news. out = prior @ news \<and>
     list_all2 (\<lambda>r r'. if P r then (\<exists>others. upd others r = Inr r') else r' = r) rs news"
proof (induction rs arbitrary: prior)
  case Nil
  then show ?case by simp
next
  case (Cons r rs)
  show ?case
  proof (cases "P r")
    case True
    with Cons.prems obtain r' where r': "upd (prior @ rs) r = Inr r'"
      and rest: "update_each P upd (prior @ [r']) rs = Inr out"
      by (auto split: sum.splits)
    from Cons.IH [OF rest] obtain news where "out = (prior @ [r']) @ news"
      and "list_all2 (\<lambda>r r'. if P r then (\<exists>others. upd others r = Inr r') else r' = r) rs news"
      by blast
    with True r' show ?thesis
      by (intro exI [of _ "r' # news"]) auto
  next
    case False
    with Cons.prems have rest: "update_each P upd (prior @ [r]) rs = Inr out" by simp
    from Cons.IH [OF rest] obtain news where "out = (prior @ [r]) @ news"
      and "list_all2 (\<lambda>r r'. if P r then (\<exists>others. upd others r = Inr r') else r' = r) rs news"
      by blast
    with False show ?thesis
      by (intro exI [of _ "r # news"]) auto
  qed
qed

lemma users_update_row_Inr:
  "users_update_row f now others OLD = Inr NEW \<Longrightarrow>
   (\<exists>NEW0. f OLD = Inr NEW0 \<and> NEW = NEW0\<lparr>updated_at := Some now\<rparr>) \<and> users_checks NEW = None"
  by (auto simp: users_update_row_def bind_err_Inr_iff Let_def update_updated_at_column_def
      split: option.splits if_splits)

lemma sessions_update_row_Inr:
  "sessions_update_row f now others OLD = Inr NEW \<Longrightarrow>
   (\<exists>NEW0. f OLD = Inr NEW0 \<and> NEW = NEW0\<lparr>updated_at := Some now\<rparr>) \<and> sessions_checks NEW = None"
  by (auto simp: sessions_update_row_def bind_err_Inr_iff Let_def update_updated_at_column_def
      split: option.splits if_splits)

lemma update_users_rows:
  assumes "update_users P f now db = Inr db'"
  shows "list_all2 (\<lambda>OLD NEW. if P OLD
            then (\<exists>NEW0. f OLD = Inr NEW0 \<and> NEW = NEW0\<lparr>updated_at := Some now\<rparr>) \<and>
                 users_checks NEW = None
            else NEW = OLD) (tbl_users db) (tbl_users db')"
    and "tbl_sessions db' = tbl_sessions db" and "tbl_messages db' = tbl_messages db"
proof -
  from assms obtain rows where
    rows: "update_each P (users_update_row f now) [] (tbl_users db) = Inr rows"
    and db': "db' = db\<lparr>tbl_users := rows\<rparr>"
    by (auto simp: update_users_def bind_err_Inr_iff split: option.splits)
  from update_each_shape [OF rows]
  have "list_all2 (\<lambda>r r'. if P r then (\<exists>others. users_update_row f now others r = Inr r')
          else r' = r) (tbl_users db) rows"
    by simp
  then have "list_all2 (\<lambda>OLD NEW. if P OLD
            then (\<exists>NEW0. f OLD = Inr NEW0 \<and> NEW = NEW0\<lparr>updated_at := Some now\<rparr>) \<and>
                 users_checks NEW = None
            else NEW = OLD) (tbl_users db) rows"
    by (rule list_all2_mono) (auto dest: users_update_row_Inr split: if_splits)
  with db' show "list_all2 (\<lambda>OLD NEW. if P OLD
            then (\<exists>NEW0. f OLD = Inr NEW0 \<and> NEW = NEW0\<lparr>updated_at := Some now\<rparr>) \<and>
                 users_checks NEW = None
            else NEW = OLD) (tbl_users db) (tbl_users db')"
    by simp
  from db' show "tbl_sessions db' = tbl_sessions db" and "tbl_messages db' = tbl_messages db"
    by simp_all
qed

lemma update_sessions_rows:
  assumes "update_sessions P f now db = Inr db'"
  shows "list_all2 (\<lambda>OLD NEW. if P OLD
            then (\<exists>NEW0. f OLD = Inr NEW0 \<and> NEW = NEW0\<lparr>updated_at := Some now\<rparr>) \<and>
                 sessions_checks NEW = None
            else NEW = OLD) (tbl_sessions db) (tbl_sessions db')"
    and "tbl_users db' = tbl_users db" and "tbl_messages db' = tbl_messages db"
proof -
  from assms obtain rows where
    rows: "update_each P (sessions_update_row f now) [] (tbl_sessions db) = Inr rows"
    and db': "db' = db\<lparr>tbl_sessions := rows\<rparr>"
    by (auto simp: update_sessions_def bind_err_Inr_iff split: option.splits)
  from update_each_shape [OF rows]
  have "list_all2 (\<lambda>r r'. if P r then (\<exists>others. sessions_update_row f now others r = Inr r')
          else r' = r) (tbl_sessions db) rows"
    by simp
  then have "list_all2 (\<lambda>OLD NEW. if P OLD
            then (\<exists>NEW0. f OLD = Inr NEW0 \<and> NEW = NEW0\<lparr>updated_at := Some now\<rparr>) \<and>
                 sessions_checks NEW = None
            else NEW = OLD) (tbl_sessions db) rows"
    by (rule list_all2_mono) (auto dest: sessions_update_row_Inr split: if_splits)
  with db' show "list_all2 (\<lambda>OLD NEW. if P OLD
            then (\<exists>NEW0. f OLD = Inr NEW0 \<and> NEW = NEW0\<lparr>updated_at := Some now\<rparr>) \<and>
                 sessions_checks NEW = None
            else NEW = OLD) (tbl_sessions db) (tbl_sessions db')"
    by simp
  from db' show "tbl_users db' = tbl_users db" and "tbl_messages db' = tbl_messages db"
    by simp_all
qed

text \<open>
  C8. An \<open>UPDATE\<close> of \<open>users\<close> or of \<open>sessions\<close> that succeeds leaves every row it
  does not select as it was, and stores for every row it selects what its \<open>SET\<close>
  list computed with \<open>updated_at\<close> overwritten by the current time; the trigger
  function changes \<open>updated_at\<close> and no other field.
\<close>

theorem update_overwrites_updated_at:
  "(update_users P f now db = Inr db' \<longrightarrow>
      list_all2 (\<lambda>OLD NEW. if P OLD
          then \<exists>NEW0. f OLD = Inr NEW0 \<and> NEW = NEW0\<lparr>updated_at := Some now\<rparr>
          else NEW = OLD) (tbl_users db) (tbl_users db')) \<and>
   (update_sessions Q g now db = Inr db'' \<longrightarrow>
      list_all2 (\<lambda>OLD NEW. if Q OLD
          then \<exists>NEW0. g OLD = Inr NEW0 \<and> NEW = NEW0\<lparr>updated_at := Some now\<rparr>
          else NEW = OLD) (tbl_sessions db) (tbl_sessions db'')) \<and>
   update_updated_at_column now r = r\<lparr>updated_at := Some now\<rparr>"
proof (intro conjI impI)
  assume "update_users P f now db = Inr db'"
  from update_users_rows(1) [OF this]
  show "list_all2 (\<lambda>OLD NEW. if P OLD
          then \<exists>NEW0. f OLD = Inr NEW0 \<and> NEW = NEW0\<lparr>updated_at := Some now\<rparr>
          else NEW = OLD) (tbl_users db) (tbl_users db')"
    by (rule list_all2_mono) (auto split: if_splits)
next
  assume "update_sessions Q g now db = Inr db''"
  from update_sessions_rows(1) [OF this]
  show "list_all2 (\<lambda>OLD NEW. if Q OLD
          then \<exists>NEW0. g OLD = Inr NEW0 \<and> NEW = NEW0\<lparr>updated_at := Some now\<rparr>
          else NEW = OLD) (tbl_sessions db) (tbl_sessions db'')"
    by (rule list_all2_mono) (auto split: if_splits)
next
  show "update_updated_at_column now r = r\<lparr>updated_at := Some now\<rparr>"
    by (simp add: update_updated_at_column_def)
qed

theorem update_overwrites_updated_at_witness:
  "update_users (\<lambda>u. row_id u = 1) (\<lambda>u. Inr (u\<lparr>is_active := False, updated_at := None\<rparr>)) 42
      example_db =
     Inr (example_db\<lparr>tbl_users := [example_user\<lparr>is_active := False, updated_at := Some 42\<rparr>]\<rparr>) \<and>
   update_sessions (\<lambda>s. row_id s = 10) (\<lambda>s. Inr (s\<lparr>status := str ''paused''\<rparr>)) 42 example_db =
     Inr (example_db\<lparr>tbl_sessions := [(new_session 10 1 0)\<lparr>status := str ''paused'',
        updated_at := Some 42\<rparr>]\<rparr>) \<and>
   list_all2 (\<lambda>OLD NEW. if row_id OLD = 1
       then \<exists>NEW0. Inr (OLD\<lparr>is_active := False, updated_at := None\<rparr>) = (Inr NEW0 :: db_error + users_row) \<and>
            NEW = NEW0\<lparr>updated_at := Some 42\<rparr>
       else NEW = OLD)
     (tbl_users example_db) [example_user\<lparr>is_active := False, updated_at := Some 42\<rparr>]"
proof -
  have a: "update_users (\<lambda>u. row_id u = 1) (\<lambda>u. Inr (u\<lparr>is_active := False, updated_at := None\<rparr>)) 42
      example_db =
     Inr (example_db\<lparr>tbl_users := [example_user\<lparr>is_active := False, updated_at := Some 42\<rparr>]\<rparr>)"
    by code_simp
  have b: "update_sessions (\<lambda>s. row_id s = 10) (\<lambda>s. Inr (s\<lparr>status := str ''paused''\<rparr>)) 42 example_db =
     Inr (example_db\<lparr>tbl_sessions := [(new_session 10 1 0)\<lparr>status := str ''paused'',
        updated_at := Some 42\<rparr>]\<rparr>)"
    by code_simp
  from update_overwrites_updated_at [of "\<lambda>u. row_id u = 1"
      "\<lambda>u. Inr (u\<lparr>is_active := False, updated_at := None\<rparr>)" 42 example_db
      "example_db\<lparr>tbl_users := [example_user\<lparr>is_active := False, updated_at := Some 42\<rparr>]\<rparr>"
      "\<lambda>s. row_id s = 10" "\<lambda>s. Inr (s\<lparr>status := str ''paused''\<rparr>)"
      "example_db\<lparr>tbl_sessions := [(new_session 10 1 0)\<lparr>status := str ''paused'',
        updated_at := Some 42\<rparr>]\<rparr>" example_user] a
  have c: "list_all2 (\<lambda>OLD NEW. if row_id OLD = 1
       then \<exists>NEW0. Inr (OLD\<lparr>is_active := False, updated_at := None\<rparr>) = (Inr NEW0 :: db_error + users_row) \<and>
            NEW = NEW0\<lparr>updated_at := Some 42\<rparr>
       else NEW = OLD)
     (tbl_users example_db)
     (tbl_users (example_db\<lparr>tbl_users := [example_user\<lparr>is_active := False, updated_at := Some 42\<rparr>]\<rparr>))"
    by blast
  have d: "tbl_users (example_db\<lparr>tbl_users := [example_user\<lparr>is_active := False, updated_at := Some 42\<rparr>]\<rparr>) =
      [example_user\<lparr>is_active := False, updated_at := Some 42\<rparr>]"
    by simp
  from a b c [unfolded d] show ?thesis by blast
qed

subsection \<open>The message counter\<close>

lemma messages_coerce_Inr:
  "messages_coerce r = Inr NEW \<Longrightarrow>
   row_id NEW = row_id r \<and> session_id NEW = session_id r \<and> content NEW = content r"
  by (auto simp: messages_coerce_def bind_err_Inr_iff)

lemma insert_messages_Inr:
  assumes "insert_messages r now db = Inr db'"
  obtains NEW where "messages_coerce r = Inr NEW" "messages_checks NEW = None"
    "row_id NEW \<notin> row_id ` set (tbl_messages db)"
    "session_id r \<in> row_id ` set (tbl_sessions db)"
    "db' = db\<lparr>tbl_messages := tbl_messages db @ [NEW]\<rparr>"
proof -
  from assms obtain NEW where c: "messages_coerce r = Inr NEW"
    and rest: "(case messages_checks NEW of
         Some e \<Rightarrow> Inl e
       | None \<Rightarrow>
           if row_id NEW \<in> row_id ` set (tbl_messages db)
             then Inl (Unique_violation ''messages_pkey'')
           else if session_id NEW \<notin> row_id ` set (tbl_sessions db)
             then Inl (Foreign_key_violation ''messages_session_id_fkey'')
           else Inr (db\<lparr>tbl_messages := tbl_messages db @ [NEW]\<rparr>)) = Inr db'"
    by (auto simp: insert_messages_def bind_err_Inr_iff)
  from c have s: "session_id NEW = session_id r" by (simp add: messages_coerce_Inr)
  from rest have "messages_checks NEW = None"
    and "row_id NEW \<notin> row_id ` set (tbl_messages db)"
    and "session_id NEW \<in> row_id ` set (tbl_sessions db)"
    and "db' = db\<lparr>tbl_messages := tbl_messages db @ [NEW]\<rparr>"
    by (auto split: option.splits if_splits)
  with c s that show thesis by metis
qed

text \<open>
  C2. What the script's schema does: a message insert or delete that succeeds
  leaves the \<open>sessions\<close> table exactly as it was, so neither the owning session's
  \<open>message_count\<close> nor its \<open>updated_at\<close> changes. The increment, the floored
  decrement and the timestamp are what lines 163--194 set out to do, and the
  schema lacks them.
\<close>

theorem message_statements_leave_sessions:
  "(insert_messages r now db = Inr db' \<longrightarrow> tbl_sessions db' = tbl_sessions db) \<and>
   (delete_messages P now db = Inr db'' \<longrightarrow> tbl_sessions db'' = tbl_sessions db)"
proof (intro conjI impI)
  assume "insert_messages r now db = Inr db'"
  then obtain NEW where "db' = db\<lparr>tbl_messages := tbl_messages db @ [NEW]\<rparr>"
    by (rule insert_messages_Inr)
  then show "tbl_sessions db' = tbl_sessions db" by simp
next
  assume "delete_messages P now db = Inr db''"
  then show "tbl_sessions db'' = tbl_sessions db"
    by (auto simp: delete_messages_def)
qed

theorem message_statements_leave_sessions_witness:
  "insert_messages (example_message 100 10 (str ''hi'')) 5 example_db =
     Inr (example_db\<lparr>tbl_messages := [example_message 100 10 (str ''hi'')]\<rparr>) \<and>
   map message_count
     (tbl_sessions (example_db\<lparr>tbl_messages := [example_message 100 10 (str ''hi'')]\<rparr>)) = [0] \<and>
   map updated_at
     (tbl_sessions (example_db\<lparr>tbl_messages := [example_message 100 10 (str ''hi'')]\<rparr>)) = [Some 0] \<and>
   delete_messages (\<lambda>m. row_id m = 100) 9 cascade_db =
     Inr (cascade_db\<lparr>tbl_messages := [example_message 101 11 (str ''b''),
        example_message 200 20 (str ''c'')]\<rparr>) \<and>
   map message_count
     (tbl_sessions (cascade_db\<lparr>tbl_messages := [example_message 101 11 (str ''b''),
        example_message 200 20 (str ''c'')]\<rparr>)) = [1, 1, 1] \<and>
   map updated_at
     (tbl_sessions (cascade_db\<lparr>tbl_messages := [example_message 101 11 (str ''b''),
        example_message 200 20 (str ''c'')]\<rparr>)) = [Some 0, Some 0, Some 0]"
proof -
  let ?m = "example_message 100 10 (str ''hi'')"
  let ?dbA = "example_db\<lparr>tbl_messages := [?m]\<rparr>"
  let ?dbB = "cascade_db\<lparr>tbl_messages := [example_message 101 11 (str ''b''),
        example_message 200 20 (str ''c'')]\<rparr>"
  have a: "insert_messages ?m 5 example_db = Inr ?dbA" by code_simp
  have d: "delete_messages (\<lambda>m. row_id m = 100) 9 cascade_db = Inr ?dbB" by code_simp
  have c0: "map message_count (tbl_sessions example_db) = [0]"
    and u0: "map updated_at (tbl_sessions example_db) = [Some 0]"
    and c1: "map message_count (tbl_sessions cascade_db) = [1, 1, 1]"
    and u1: "map updated_at (tbl_sessions cascade_db) = [Some 0, Some 0, Some 0]"
    by code_simp+
  from message_statements_leave_sessions [of ?m 5 example_db ?dbA] a
  have "tbl_sessions ?dbA = tbl_sessions example_db" by blast
  moreover from message_statements_leave_sessions [of _ 9 cascade_db _ "\<lambda>m. row_id m = 100" ?dbB] d
  have "tbl_sessions ?dbB = tbl_sessions cascade_db" by blast
  ultimately show ?thesis using a d c0 u0 c1 u1 by (simp only:)
qed

lemma workload_Cons: "workload db (ts # sts) = workload (commit db ts) sts"
  by (simp add: workload_def)

text \<open>
  C1. What the script's schema does: no sequence of message inserts and deletes
  changes the \<open>sessions\<close> table, so a session's \<open>message_count\<close> stays what it
  was, at the default 0 for a session created without one, whatever the number of
  inserts and deletes.
\<close>

theorem message_count_not_maintained:
  assumes "list_all (\<lambda>ts. is_message_statement (snd ts)) sts"
  shows "tbl_sessions (workload db sts) = tbl_sessions db"
  using assms
proof (induction sts arbitrary: db)
  case Nil
  show ?case by (simp add: workload_def)
next
  case (Cons ts sts)
  from Cons.prems have ms: "is_message_statement (snd ts)"
    and rest: "list_all (\<lambda>ts. is_message_statement (snd ts)) sts"
    by simp_all
  have "tbl_sessions (commit db ts) = tbl_sessions db"
  proof (cases "snd ts")
    case (Insert_message r)
    show ?thesis
    proof (cases "insert_messages r (fst ts) db")
      case (Inl e)
      with Insert_message show ?thesis by (simp add: commit_def)
    next
      case (Inr db')
      then obtain NEW where "db' = db\<lparr>tbl_messages := tbl_messages db @ [NEW]\<rparr>"
        by (rule insert_messages_Inr)
      with Inr Insert_message show ?thesis by (simp add: commit_def)
    qed
  next
    case (Delete_messages P)
    then show ?thesis by (simp add: commit_def delete_messages_def)
  qed (use ms in simp_all)
  with Cons.IH [OF rest, of "commit db ts"] show ?case
    by (simp add: workload_Cons)
qed

theorem message_count_not_maintained_witness:
  "list_all (\<lambda>ts. is_message_statement (snd ts))
     [(1, Insert_message (example_message 100 10 (str ''one''))),
      (2, Insert_message (example_message 101 10 (str ''two''))),
      (3, Delete_messages (\<lambda>m. row_id m = 100))] \<and>
   inserts_total 10 example_db
     [(1, Insert_message (example_message 100 10 (str ''one''))),
      (2, Insert_message (example_message 101 10 (str ''two''))),
      (3, Delete_messages (\<lambda>m. row_id m = 100))] = 2 \<and>
   deletes_total 10 example_db
     [(1, Insert_message (example_message 100 10 (str ''one''))),
      (2, Insert_message (example_message 101 10 (str ''two''))),
      (3, Delete_messages (\<lambda>m. row_id m = 100))] = 1 \<and>
   tbl_messages (workload example_db
     [(1, Insert_message (example_message 100 10 (str ''one''))),
      (2, Insert_message (example_message 101 10 (str ''two''))),
      (3, Delete_messages (\<lambda>m. row_id m = 100))]) =
     [example_message 101 10 (str ''two'')] \<and>
   map row_id (tbl_sessions (workload example_db
     [(1, Insert_message (example_message 100 10 (str ''one''))),
      (2, Insert_message (example_message 101 10 (str ''two''))),
      (3, Delete_messages (\<lambda>m. row_id m = 100))])) = [10] \<and>
   map message_count (tbl_sessions (workload example_db
     [(1, Insert_message (example_message 100 10 (str ''one''))),
      (2, Insert_message (example_message 101 10 (str ''two''))),
      (3, Delete_messages (\<lambda>m. row_id m = 100))])) = [0]"
proof -
  let ?sts = "[(1, Insert_message (example_message 100 10 (str ''one''))),
      (2, Insert_message (example_message 101 10 (str ''two''))),
      (3, Delete_messages (\<lambda>m. row_id m = 100))]"
  have l: "list_all (\<lambda>ts. is_message_statement (snd ts)) ?sts" by simp
  have i: "inserts_total 10 example_db ?sts = 2" by code_simp
  have d: "deletes_total 10 example_db ?sts = 1" by code_simp
  have m: "tbl_messages (workload example_db ?sts) = [example_message 101 10 (str ''two'')]"
    by code_simp
  have r: "map row_id (tbl_sessions example_db) = [10]"
    and c: "map message_count (tbl_sessions example_db) = [0]"
    by code_simp+
  from message_count_not_maintained [OF l, of example_db]
  have "tbl_sessions (workload example_db ?sts) = tbl_sessions example_db" .
  with l i d m r c show ?thesis by (simp only:)
qed

subsection \<open>The content constraint\<close>

lemma TRIM_Nil_iff: "TRIM s = [] \<longleftrightarrow> list_all (\<lambda>c. c = 0x20) s"
  unfolding TRIM_def by (rule trim_both_Nil_iff)

lemma messages_checks_blank:
  "messages_checks r = Some (Check_violation ''messages_content_not_empty'') \<longleftrightarrow>
   list_all (\<lambda>c. c = 0x20) (content r)"
  by (auto simp: messages_checks_def TRIM_Nil_iff)

text \<open>
  C5, as the code has it. An insert whose content is empty or consists only of
  spaces (U+0020) fails and leaves the database as it was; the error is the
  violation of \<open>messages_content_not_empty\<close> whenever the other values fit their
  columns. An insert whose content has any other character is never rejected by
  this constraint.
\<close>

theorem blank_content_rejected:
  "(list_all (\<lambda>c. c = 0x20) (content r) \<longrightarrow>
      (\<exists>e. insert_messages r now db = Inl e) \<and>
      commit db (now, Insert_message r) = db \<and>
      (\<forall>NEW. messages_coerce r = Inr NEW \<longrightarrow>
         insert_messages r now db = Inl (Check_violation ''messages_content_not_empty''))) \<and>
   (\<not> list_all (\<lambda>c. c = 0x20) (content r) \<longrightarrow>
      insert_messages r now db \<noteq> Inl (Check_violation ''messages_content_not_empty''))"
proof (intro conjI impI allI)
  assume b: "list_all (\<lambda>c. c = 0x20) (content r)"
  have c: "insert_messages r now db = Inl (Check_violation ''messages_content_not_empty'')"
    if "messages_coerce r = Inr NEW" for NEW
  proof -
    from that messages_coerce_Inr [OF that] b
    have "messages_checks NEW = Some (Check_violation ''messages_content_not_empty'')"
      by (simp add: messages_checks_blank)
    with that show ?thesis by (simp add: insert_messages_def bind_err_def)
  qed
  then show "insert_messages r now db = Inl (Check_violation ''messages_content_not_empty'')"
    if "messages_coerce r = Inr NEW" for NEW using that .
  show e: "\<exists>e. insert_messages r now db = Inl e"
  proof (cases "messages_coerce r")
    case (Inl e)
    then show ?thesis by (simp add: insert_messages_def bind_err_def)
  next
    case (Inr NEW)
    with c show ?thesis by blast
  qed
  then show "commit db (now, Insert_message r) = db"
    by (auto simp: commit_def)
next
  assume nb: "\<not> list_all (\<lambda>c. c = 0x20) (content r)"
  show "insert_messages r now db \<noteq> Inl (Check_violation ''messages_content_not_empty'')"
  proof
    assume a: "insert_messages r now db = Inl (Check_violation ''messages_content_not_empty'')"
    show False
    proof (cases "messages_coerce r")
      case (Inl e)
      with a have "e = Check_violation ''messages_content_not_empty''"
        by (simp add: insert_messages_def bind_err_def)
      with Inl show False
        by (auto simp: messages_coerce_def bind_err_Inl_iff varchar_def varchar_null_def
            split: if_splits option.splits)
    next
      case (Inr NEW)
      from messages_coerce_Inr [OF Inr] nb
      have "messages_checks NEW \<noteq> Some (Check_violation ''messages_content_not_empty'')"
        by (simp add: messages_checks_blank)
      moreover from this have "messages_checks NEW = Some e \<Longrightarrow> e \<noteq> Check_violation ''messages_content_not_empty''" for e
        by auto
      ultimately show False
        using a Inr
        by (auto simp: insert_messages_def bind_err_def split: option.splits if_splits)
    qed
  qed
qed

theorem blank_content_rejected_witness:
  "list_all (\<lambda>c. c = 0x20) (content (example_message 100 10 (str ''   ''))) \<and>
   insert_messages (example_message 100 10 (str ''   '')) 5 example_db =
     Inl (Check_violation ''messages_content_not_empty'') \<and>
   commit example_db (5, Insert_message (example_message 100 10 (str ''   ''))) = example_db \<and>
   \<not> list_all (\<lambda>c. c = 0x20) (content (example_message 100 10 (str '' a ''))) \<and>
   insert_messages (example_message 100 10 (str '' a '')) 5 example_db \<noteq>
     Inl (Check_violation ''messages_content_not_empty'')"
proof -
  let ?b = "example_message 100 10 (str ''   '')"
  let ?g = "example_message 100 10 (str '' a '')"
  have b: "list_all (\<lambda>c. c = 0x20) (content ?b)" by code_simp
  have c: "messages_coerce ?b = Inr ?b" by code_simp
  have g: "\<not> list_all (\<lambda>c. c = 0x20) (content ?g)" by code_simp
  from blank_content_rejected [of ?b 5 example_db] b c
  have "insert_messages ?b 5 example_db = Inl (Check_violation ''messages_content_not_empty'')"
    and "commit example_db (5, Insert_message ?b) = example_db"
    by blast+
  moreover from blank_content_rejected [of ?g 5 example_db] g
  have "insert_messages ?g 5 example_db \<noteq> Inl (Check_violation ''messages_content_not_empty'')"
    by blast
  ultimately show ?thesis using b g by blast
qed

text \<open>
  C5 as stated fails: a content of a TAB and a line feed consists only of white
  space, and the insert succeeds.
\<close>

theorem tab_content_accepted:
  "white_space_only (content (example_message 100 10 [0x09, 0x0A])) \<and>
   insert_messages (example_message 100 10 [0x09, 0x0A]) 5 example_db =
     Inr (example_db\<lparr>tbl_messages := [example_message 100 10 [0x09, 0x0A]]\<rparr>)"
  by code_simp

subsection \<open>The language constraint on \<open>users\<close>\<close>

lemma users_checks_None: "users_checks r = None \<Longrightarrow> native_language r \<noteq> target_language r"
  by (simp add: users_checks_def split: if_splits)

lemma insert_users_Inr:
  assumes "insert_users r db = Inr db'"
  obtains NEW where "users_coerce r = Inr NEW" "users_checks NEW = None"
    "db' = db\<lparr>tbl_users := tbl_users db @ [NEW]\<rparr>"
proof -
  from assms obtain NEW where c: "users_coerce r = Inr NEW"
    and rest: "(case users_checks NEW of
         Some e \<Rightarrow> Inl e
       | None \<Rightarrow>
           if row_id NEW \<in> row_id ` set (tbl_users db)
             then Inl (Unique_violation ''users_pkey'')
           else if username NEW \<in> username ` set (tbl_users db)
             then Inl (Unique_violation ''users_username_key'')
           else if email NEW \<in> email ` set (tbl_users db)
             then Inl (Unique_violation ''users_email_key'')
           else Inr (db\<lparr>tbl_users := tbl_users db @ [NEW]\<rparr>)) = Inr db'"
    by (auto simp: insert_users_def bind_err_Inr_iff)
  from rest have "users_checks NEW = None" and "db' = db\<lparr>tbl_users := tbl_users db @ [NEW]\<rparr>"
    by (auto split: option.splits if_splits)
  with c that show thesis by blast
qed

lemma insert_sessions_Inr:
  assumes "insert_sessions r db = Inr db'"
  obtains NEW where "sessions_coerce r = Inr NEW" "sessions_checks NEW = None"
    "row_id NEW \<notin> row_id ` set (tbl_sessions db)"
    "db' = db\<lparr>tbl_sessions := tbl_sessions db @ [NEW]\<rparr>"
proof -
  from assms obtain NEW where c: "sessions_coerce r = Inr NEW"
    and rest: "(case sessions_checks NEW of
         Some e \<Rightarrow> Inl e
       | None \<Rightarrow>
           if row_id NEW \<in> row_id ` set (tbl_sessions db)
             then Inl (Unique_violation ''sessions_pkey'')
           else if user_id NEW \<notin> row_id ` set (tbl_users db)
             then Inl (Foreign_key_violation ''sessions_user_id_fkey'')
           else Inr (db\<lparr>tbl_sessions := tbl_sessions db @ [NEW]\<rparr>)) = Inr db'"
    by (auto simp: insert_sessions_def bind_err_Inr_iff)
  from rest have "sessions_checks NEW = None" and "row_id NEW \<notin> row_id ` set (tbl_sessions db)"
    and "db' = db\<lparr>tbl_sessions := tbl_sessions db @ [NEW]\<rparr>"
    by (auto split: option.splits if_splits)
  with c that show thesis by blast
qed

lemma list_all2_in_set2: "list_all2 R xs ys \<Longrightarrow> y \<in> set ys \<Longrightarrow> \<exists>x\<in>set xs. R x y"
  by (induction rule: list_all2_induct) auto

lemma list_all2_in_set1: "list_all2 R xs ys \<Longrightarrow> x \<in> set xs \<Longrightarrow> \<exists>y\<in>set ys. R x y"
  by (induction rule: list_all2_induct) auto

lemma for_each_frame:
  assumes "\<And>x s s'. f x s = Inr s' \<Longrightarrow> g s' = g s" and "for_each f xs s = Inr s'"
  shows "g s' = g s"
  using assms(2)
proof (induction xs arbitrary: s)
  case Nil
  then show ?case by simp
next
  case (Cons x xs)
  then obtain s1 where a: "f x s = Inr s1" and b: "for_each f xs s1 = Inr s'"
    by (auto split: sum.splits)
  from Cons.IH [OF b] assms(1) [OF a] show ?case by simp
qed

lemma delete_messages_users:
  "delete_messages P now db = Inr db' \<Longrightarrow> tbl_users db' = tbl_users db"
  by (auto simp: delete_messages_def)

lemma delete_sessions_users:
  assumes "delete_sessions Q now db = Inr db'"
  shows "tbl_users db' = tbl_users db"
proof -
  have "tbl_users db' = tbl_users (db\<lparr>tbl_sessions := filter (\<lambda>s. \<not> Q s) (tbl_sessions db)\<rparr>)"
    by (rule for_each_frame [OF _ assms [unfolded delete_sessions_def]])
      (rule delete_messages_users)
  then show ?thesis by simp
qed

lemma delete_users_users:
  assumes "delete_users P now db = Inr db'"
  shows "tbl_users db' = filter (\<lambda>u. \<not> P u) (tbl_users db)"
proof -
  have "tbl_users db' = tbl_users (db\<lparr>tbl_users := filter (\<lambda>u. \<not> P u) (tbl_users db)\<rparr>)"
    by (rule for_each_frame [OF _ assms [unfolded delete_users_def]])
      (rule delete_sessions_users)
  then show ?thesis by simp
qed

lemma execute_keeps_languages_different:
  assumes inv: "list_all (\<lambda>u. native_language u \<noteq> target_language u) (tbl_users db)"
    and ex: "execute st now db = Inr db'"
  shows "list_all (\<lambda>u. native_language u \<noteq> target_language u) (tbl_users db')"
proof (cases st)
  case (Insert_user r)
  with ex have "insert_users r db = Inr db'" by simp
  then obtain NEW where "users_checks NEW = None" "db' = db\<lparr>tbl_users := tbl_users db @ [NEW]\<rparr>"
    by (rule insert_users_Inr)
  with inv show ?thesis by (simp add: users_checks_None)
next
  case (Insert_session r)
  with ex have "insert_sessions r db = Inr db'" by simp
  then obtain NEW where "db' = db\<lparr>tbl_sessions := tbl_sessions db @ [NEW]\<rparr>"
    by (rule insert_sessions_Inr)
  with inv show ?thesis by simp
next
  case (Insert_message r)
  with ex have "insert_messages r now db = Inr db'" by simp
  then obtain NEW where "db' = db\<lparr>tbl_messages := tbl_messages db @ [NEW]\<rparr>"
    by (rule insert_messages_Inr)
  with inv show ?thesis by simp
next
  case (Update_users P f)
  with ex have "update_users P f now db = Inr db'" by simp
  note l = update_users_rows(1) [OF this]
  show ?thesis
    unfolding list_all_iff
  proof
    fix u' assume "u' \<in> set (tbl_users db')"
    from list_all2_in_set2 [OF l this] obtain u where u: "u \<in> set (tbl_users db)"
      and c: "if P u then (\<exists>NEW0. f u = Inr NEW0 \<and> u' = NEW0\<lparr>updated_at := Some now\<rparr>) \<and>
                 users_checks u' = None else u' = u"
      by blast
    show "native_language u' \<noteq> target_language u'"
    proof (cases "P u")
      case True
      with c show ?thesis by (simp add: users_checks_None)
    next
      case False
      with c u inv show ?thesis by (simp add: list_all_iff)
    qed
  qed
next
  case (Update_sessions P f)
  with ex have "update_sessions P f now db = Inr db'" by simp
  from update_sessions_rows(2) [OF this] inv show ?thesis by simp
next
  case (Delete_users P)
  with ex have "delete_users P now db = Inr db'" by simp
  from delete_users_users [OF this] inv show ?thesis by (simp add: list_all_iff)
next
  case (Delete_sessions P)
  with ex have "delete_sessions P now db = Inr db'" by simp
  from delete_sessions_users [OF this] inv show ?thesis by simp
next
  case (Delete_messages P)
  with ex have "delete_messages P now db = Inr db'" by simp
  from delete_messages_users [OF this] inv show ?thesis by simp
qed

lemma workload_keeps_languages_different:
  "list_all (\<lambda>u. native_language u \<noteq> target_language u) (tbl_users db) \<Longrightarrow>
   list_all (\<lambda>u. native_language u \<noteq> target_language u) (tbl_users (workload db sts))"
proof (induction sts arbitrary: db)
  case Nil
  then show ?case by (simp add: workload_def)
next
  case (Cons ts sts)
  have "list_all (\<lambda>u. native_language u \<noteq> target_language u) (tbl_users (commit db ts))"
  proof (cases "execute (snd ts) (fst ts) db")
    case (Inl e)
    with Cons.prems show ?thesis by (simp add: commit_def)
  next
    case (Inr db')
    from execute_keeps_languages_different [OF Cons.prems Inr] Inr show ?thesis
      by (simp add: commit_def)
  qed
  from Cons.IH [OF this] show ?case by (simp add: workload_Cons)
qed

lemma users_coerce_languages:
  "users_coerce r = Inr NEW \<Longrightarrow> native_language r = target_language r \<Longrightarrow>
   native_language NEW = target_language NEW"
  by (auto simp: users_coerce_def bind_err_Inr_iff)

text \<open>
  C6. An insert into \<open>users\<close> with \<open>native_language = target_language\<close> fails and
  leaves the database as it was; the error is the violation of
  \<open>users_different_languages\<close> whenever the values fit their columns. Consequently,
  after any workload on the empty database every stored user has
  \<open>native_language \<noteq> target_language\<close>.
\<close>

lemma varchar_Inl: "varchar n s = Inl e \<Longrightarrow> e = String_data_right_truncation"
  by (simp add: varchar_def split: if_splits)

lemma users_coerce_Inl: "users_coerce r = Inl e \<Longrightarrow> e = String_data_right_truncation"
  by (auto simp: users_coerce_def bind_err_Inl_iff dest: varchar_Inl)

text \<open>
  C6, as the code has it. An insert into \<open>users\<close> with
  \<open>native_language = target_language\<close> fails and leaves the database as it was. The
  error is the violation of \<open>users_different_languages\<close> whenever the values fit
  their columns, and otherwise the error of a value too long for its column, which
  is raised before any constraint is looked at. Consequently, after any workload on
  the empty database every stored user has \<open>native_language \<noteq> target_language\<close>.
\<close>

theorem same_language_user_rejected:
  "(native_language r = target_language r \<longrightarrow>
      (insert_users r db = Inl (Check_violation ''users_different_languages'') \<or>
       insert_users r db = Inl String_data_right_truncation) \<and>
      commit db (now, Insert_user r) = db \<and>
      (\<forall>NEW. users_coerce r = Inr NEW \<longrightarrow>
         insert_users r db = Inl (Check_violation ''users_different_languages''))) \<and>
   list_all (\<lambda>u. native_language u \<noteq> target_language u) (tbl_users (workload empty_db sts))"
proof (intro conjI impI allI)
  assume eq: "native_language r = target_language r"
  have c: "insert_users r db = Inl (Check_violation ''users_different_languages'')"
    if "users_coerce r = Inr NEW" for NEW
  proof -
    from users_coerce_languages [OF that eq]
    have "users_checks NEW = Some (Check_violation ''users_different_languages'')"
      by (simp add: users_checks_def)
    with that show ?thesis by (simp add: insert_users_def bind_err_def)
  qed
  then show "insert_users r db = Inl (Check_violation ''users_different_languages'')"
    if "users_coerce r = Inr NEW" for NEW using that .
  show e: "insert_users r db = Inl (Check_violation ''users_different_languages'') \<or>
       insert_users r db = Inl String_data_right_truncation"
  proof (cases "users_coerce r")
    case (Inl e)
    from users_coerce_Inl [OF Inl] Inl show ?thesis
      by (simp add: insert_users_def bind_err_def)
  next
    case (Inr NEW)
    with c show ?thesis by blast
  qed
  then show "commit db (now, Insert_user r) = db"
    by (auto simp: commit_def)
next
  show "list_all (\<lambda>u. native_language u \<noteq> target_language u) (tbl_users (workload empty_db sts))"
    by (rule workload_keeps_languages_different) (simp add: empty_db_def)
qed

theorem same_language_user_rejected_witness:
  "native_language (example_user\<lparr>target_language := str ''TR''\<rparr>) =
     target_language (example_user\<lparr>target_language := str ''TR''\<rparr>) \<and>
   insert_users (example_user\<lparr>target_language := str ''TR''\<rparr>) empty_db =
     Inl (Check_violation ''users_different_languages'') \<and>
   commit empty_db (0, Insert_user (example_user\<lparr>target_language := str ''TR''\<rparr>)) = empty_db \<and>
   tbl_users (workload empty_db
     [(0, Insert_user example_user),
      (1, Insert_user (example_user\<lparr>target_language := str ''TR''\<rparr>)),
      (2, Update_users (\<lambda>u. True) (\<lambda>u. Inr (u\<lparr>target_language := native_language u\<rparr>)))]) =
     [example_user] \<and>
   list_all (\<lambda>u. native_language u \<noteq> target_language u) (tbl_users (workload empty_db
     [(0, Insert_user example_user),
      (1, Insert_user (example_user\<lparr>target_language := str ''TR''\<rparr>)),
      (2, Update_users (\<lambda>u. True) (\<lambda>u. Inr (u\<lparr>target_language := native_language u\<rparr>)))]))"
proof -
  let ?bad = "example_user\<lparr>target_language := str ''TR''\<rparr>"
  let ?sts = "[(0, Insert_user example_user), (1, Insert_user ?bad),
      (2, Update_users (\<lambda>u. True) (\<lambda>u. Inr (u\<lparr>target_language := native_language u\<rparr>)))]"
  have a: "native_language ?bad = target_language ?bad" by code_simp
  have c: "users_coerce ?bad = Inr ?bad" by code_simp
  have w: "tbl_users (workload empty_db ?sts) = [example_user]" by code_simp
  from same_language_user_rejected [of ?bad empty_db 0 ?sts] a c
  have "insert_users ?bad empty_db = Inl (Check_violation ''users_different_languages'')"
    and "commit empty_db (0, Insert_user ?bad) = empty_db"
    and "list_all (\<lambda>u. native_language u \<noteq> target_language u) (tbl_users (workload empty_db ?sts))"
    by blast+
  with a w show ?thesis by blast
qed

text \<open>
  C6 as stated fails: with equal languages and a user name of 51 characters the
  insert is refused for the length of the name, which is a data exception and not
  a constraint violation.
\<close>

theorem same_language_long_username:
  "native_language (example_user\<lparr>username := replicate 51 0x61, target_language := str ''TR''\<rparr>) =
     target_language (example_user\<lparr>username := replicate 51 0x61, target_language := str ''TR''\<rparr>) \<and>
   insert_users (example_user\<lparr>username := replicate 51 0x61, target_language := str ''TR''\<rparr>)
     empty_db = Inl String_data_right_truncation \<and>
   \<not> constraint_violation String_data_right_truncation"
  by code_simp

subsection \<open>Cascading deletes\<close>

lemma cascade_messages:
  "for_each (\<lambda>OLD. delete_messages (\<lambda>m. session_id m = row_id OLD) now) ds st =
    Inr (st\<lparr>tbl_messages := filter (\<lambda>m. session_id m \<notin> row_id ` set ds) (tbl_messages st)\<rparr>)"
proof (induction ds arbitrary: st)
  case Nil
  then show ?case by simp
next
  case (Cons d ds)
  let ?st1 = "st\<lparr>tbl_messages := filter (\<lambda>m. \<not> session_id m = row_id d) (tbl_messages st)\<rparr>"
  have "delete_messages (\<lambda>m. session_id m = row_id d) now st = Inr ?st1"
    by (simp add: delete_messages_def)
  moreover
  from Cons.IH [of ?st1]
  have "for_each (\<lambda>OLD. delete_messages (\<lambda>m. session_id m = row_id OLD) now) ds ?st1 =
    Inr (st\<lparr>tbl_messages := filter (\<lambda>m. session_id m \<notin> row_id ` set (d # ds)) (tbl_messages st)\<rparr>)"
    by (simp add: conj_commute)
  ultimately show ?case by simp
qed

lemma delete_sessions_result:
  "delete_sessions Q now db =
    Inr (db\<lparr>tbl_sessions := filter (\<lambda>s. \<not> Q s) (tbl_sessions db),
           tbl_messages := filter (\<lambda>m. session_id m \<notin> row_id ` set (filter Q (tbl_sessions db)))
             (tbl_messages db)\<rparr>)"
  by (simp add: delete_sessions_def cascade_messages)

lemma cascade_sessions:
  "for_each (\<lambda>OLD. delete_sessions (\<lambda>s. user_id s = row_id OLD) now) ds st =
    Inr (st\<lparr>tbl_sessions := filter (\<lambda>s. user_id s \<notin> row_id ` set ds) (tbl_sessions st),
           tbl_messages := filter (\<lambda>m. session_id m \<notin>
               row_id ` set (filter (\<lambda>s. user_id s \<in> row_id ` set ds) (tbl_sessions st)))
             (tbl_messages st)\<rparr>)"
proof (induction ds arbitrary: st)
  case Nil
  then show ?case by simp
next
  case (Cons d ds)
  let ?ss1 = "filter (\<lambda>s. \<not> user_id s = row_id d) (tbl_sessions st)"
  let ?ms1 = "filter (\<lambda>m. session_id m \<notin> row_id ` set (filter (\<lambda>s. user_id s = row_id d) (tbl_sessions st)))
             (tbl_messages st)"
  let ?st1 = "st\<lparr>tbl_sessions := ?ss1, tbl_messages := ?ms1\<rparr>"
  have one: "delete_sessions (\<lambda>s. user_id s = row_id d) now st = Inr ?st1"
    by (rule delete_sessions_result)
  from Cons.IH [of ?st1]
  have ih: "for_each (\<lambda>OLD. delete_sessions (\<lambda>s. user_id s = row_id OLD) now) ds ?st1 =
    Inr (st\<lparr>tbl_sessions := filter (\<lambda>s. user_id s \<notin> row_id ` set ds) ?ss1,
           tbl_messages := filter (\<lambda>m. session_id m \<notin>
               row_id ` set (filter (\<lambda>s. user_id s \<in> row_id ` set ds) ?ss1)) ?ms1\<rparr>)"
    by (simp del: filter_filter set_filter)
  have ss: "filter (\<lambda>s. user_id s \<notin> row_id ` set ds) ?ss1 =
      filter (\<lambda>s. user_id s \<notin> row_id ` set (d # ds)) (tbl_sessions st)"
    by (auto intro: filter_cong)
  have ms: "filter (\<lambda>m. session_id m \<notin>
               row_id ` set (filter (\<lambda>s. user_id s \<in> row_id ` set ds) ?ss1)) ?ms1 =
      filter (\<lambda>m. session_id m \<notin>
               row_id ` set (filter (\<lambda>s. user_id s \<in> row_id ` set (d # ds)) (tbl_sessions st)))
        (tbl_messages st)"
    by (auto intro!: filter_cong)
  show ?case
    unfolding for_each.simps one sum.case ih ss ms ..
qed

lemma delete_users_result:
  "delete_users P now db =
    Inr (db\<lparr>tbl_users := filter (\<lambda>u. \<not> P u) (tbl_users db),
           tbl_sessions := filter (\<lambda>s. user_id s \<notin> row_id ` set (filter P (tbl_users db)))
             (tbl_sessions db),
           tbl_messages := filter (\<lambda>m. session_id m \<notin>
               row_id ` set (filter (\<lambda>s. user_id s \<in> row_id ` set (filter P (tbl_users db)))
                 (tbl_sessions db)))
             (tbl_messages db)\<rparr>)"
  using cascade_sessions [of now "filter P (tbl_users db)"
      "db\<lparr>tbl_users := filter (\<lambda>u. \<not> P u) (tbl_users db)\<rparr>"]
  unfolding delete_users_def by simp

text \<open>
  C4. In a database whose session ids are distinct (the primary key), deleting an
  existing user succeeds, and afterwards the user is gone, no session references
  the user and no message references any session the user had; deleting an existing
  session succeeds, and afterwards the session is gone and no message references it.
\<close>

theorem delete_cascades:
  assumes "distinct (map row_id (tbl_sessions db))"
  shows "(list_ex (\<lambda>u. row_id u = uid) (tbl_users db) \<longrightarrow>
      (\<exists>db'. delete_users (\<lambda>u. row_id u = uid) now db = Inr db' \<and>
         list_all (\<lambda>u. row_id u \<noteq> uid) (tbl_users db') \<and>
         list_all (\<lambda>s. user_id s \<noteq> uid) (tbl_sessions db') \<and>
         list_all (\<lambda>m. \<forall>s\<in>set (tbl_sessions db). user_id s = uid \<longrightarrow> session_id m \<noteq> row_id s)
           (tbl_messages db'))) \<and>
     (list_ex (\<lambda>s. row_id s = sid) (tbl_sessions db) \<longrightarrow>
      (\<exists>db'. delete_sessions (\<lambda>s. row_id s = sid) now db = Inr db' \<and>
         list_all (\<lambda>s. row_id s \<noteq> sid) (tbl_sessions db') \<and>
         list_all (\<lambda>m. session_id m \<noteq> sid) (tbl_messages db')))"
proof (intro conjI impI)
  assume "list_ex (\<lambda>u. row_id u = uid) (tbl_users db)"
  then have uid: "uid \<in> row_id ` set (filter (\<lambda>u. row_id u = uid) (tbl_users db))"
    by (auto simp: list_ex_iff)
  show "\<exists>db'. delete_users (\<lambda>u. row_id u = uid) now db = Inr db' \<and>
         list_all (\<lambda>u. row_id u \<noteq> uid) (tbl_users db') \<and>
         list_all (\<lambda>s. user_id s \<noteq> uid) (tbl_sessions db') \<and>
         list_all (\<lambda>m. \<forall>s\<in>set (tbl_sessions db). user_id s = uid \<longrightarrow> session_id m \<noteq> row_id s)
           (tbl_messages db')"
    unfolding delete_users_result
    using uid by (intro exI conjI refl) (auto simp: list_all_iff)
next
  assume "list_ex (\<lambda>s. row_id s = sid) (tbl_sessions db)"
  then have sid: "sid \<in> row_id ` set (filter (\<lambda>s. row_id s = sid) (tbl_sessions db))"
    by (auto simp: list_ex_iff)
  show "\<exists>db'. delete_sessions (\<lambda>s. row_id s = sid) now db = Inr db' \<and>
         list_all (\<lambda>s. row_id s \<noteq> sid) (tbl_sessions db') \<and>
         list_all (\<lambda>m. session_id m \<noteq> sid) (tbl_messages db')"
    unfolding delete_sessions_result
    using sid by (intro exI conjI refl) (auto simp: list_all_iff)
qed

theorem delete_cascades_witness:
  "distinct (map row_id (tbl_sessions cascade_db)) \<and>
   list_ex (\<lambda>u. row_id u = 1) (tbl_users cascade_db) \<and>
   list_ex (\<lambda>s. row_id s = 20) (tbl_sessions cascade_db) \<and>
   delete_users (\<lambda>u. row_id u = 1) 7 cascade_db =
     Inr \<lparr>tbl_users = [example_user\<lparr>row_id := 2, username := str ''other'',
              email := str ''other@example.com''\<rparr>],
          tbl_sessions = [(new_session 20 2 0)\<lparr>message_count := 1\<rparr>],
          tbl_messages = [example_message 200 20 (str ''c'')]\<rparr> \<and>
   (\<exists>db'. delete_users (\<lambda>u. row_id u = 1) 7 cascade_db = Inr db' \<and>
         list_all (\<lambda>u. row_id u \<noteq> 1) (tbl_users db') \<and>
         list_all (\<lambda>s. user_id s \<noteq> 1) (tbl_sessions db') \<and>
         list_all (\<lambda>m. \<forall>s\<in>set (tbl_sessions cascade_db). user_id s = 1 \<longrightarrow> session_id m \<noteq> row_id s)
           (tbl_messages db')) \<and>
   (\<exists>db'. delete_sessions (\<lambda>s. row_id s = 20) 7 cascade_db = Inr db' \<and>
         list_all (\<lambda>s. row_id s \<noteq> 20) (tbl_sessions db') \<and>
         list_all (\<lambda>m. session_id m \<noteq> 20) (tbl_messages db'))"
proof -
  have d: "distinct (map row_id (tbl_sessions cascade_db))" by code_simp
  have u: "list_ex (\<lambda>u. row_id u = 1) (tbl_users cascade_db)" by code_simp
  have s: "list_ex (\<lambda>s. row_id s = 20) (tbl_sessions cascade_db)" by code_simp
  have r: "delete_users (\<lambda>u. row_id u = 1) 7 cascade_db =
     Inr \<lparr>tbl_users = [example_user\<lparr>row_id := 2, username := str ''other'',
              email := str ''other@example.com''\<rparr>],
          tbl_sessions = [(new_session 20 2 0)\<lparr>message_count := 1\<rparr>],
          tbl_messages = [example_message 200 20 (str ''c'')]\<rparr>"
    by code_simp
  from delete_cascades [OF d, of 1 7 20] u s d r show ?thesis by blast
qed

subsection \<open>Reachable databases\<close>

text \<open>
  The side condition on the session ids holds where it should: every workload
  keeps them distinct.
\<close>

lemma update_each_distinct:
  assumes upd: "\<And>others r r'. upd others r = Inr r' \<Longrightarrow> key r' = key r \<or> key r' \<notin> key ` set others"
    and "distinct (map key (prior @ rs))" and "update_each P upd prior rs = Inr out"
  shows "distinct (map key out)"
  using assms(2,3)
proof (induction rs arbitrary: prior)
  case Nil
  then show ?case by simp
next
  case (Cons r rs)
  show ?case
  proof (cases "P r")
    case True
    with Cons.prems(2) obtain r' where r': "upd (prior @ rs) r = Inr r'"
      and rest: "update_each P upd (prior @ [r']) rs = Inr out"
      by (auto split: sum.splits)
    have "distinct (map key ((prior @ [r']) @ rs))"
    proof (cases "key r' = key r")
      case True
      then have "map key ((prior @ [r']) @ rs) = map key (prior @ r # rs)" by simp
      with Cons.prems(1) show ?thesis by (simp only:)
    next
      case False
      with upd [OF r'] have "key r' \<notin> key ` set (prior @ rs)" by blast
      with Cons.prems(1) show ?thesis by auto
    qed
    from Cons.IH [OF this rest] show ?thesis .
  next
    case False
    with Cons.prems(2) have rest: "update_each P upd (prior @ [r]) rs = Inr out" by simp
    from Cons.prems(1) have "distinct (map key ((prior @ [r]) @ rs))" by simp
    from Cons.IH [OF this rest] show ?thesis .
  qed
qed

lemma update_sessions_pkey:
  assumes "distinct (map row_id (tbl_sessions db))" and "update_sessions P f now db = Inr db'"
  shows "distinct (map row_id (tbl_sessions db'))"
proof -
  from assms(2) obtain rows where
    rows: "update_each P (sessions_update_row f now) [] (tbl_sessions db) = Inr rows"
    and db': "db' = db\<lparr>tbl_sessions := rows\<rparr>"
    by (auto simp: update_sessions_def bind_err_Inr_iff split: option.splits)
  have "distinct (map row_id rows)"
  proof (rule update_each_distinct [OF _ _ rows])
    show "row_id r' = row_id r \<or> row_id r' \<notin> row_id ` set others"
      if "sessions_update_row f now others r = Inr r'" for others r r'
      using that
      by (auto simp: sessions_update_row_def bind_err_Inr_iff Let_def
          split: option.splits if_splits)
    from assms(1) show "distinct (map row_id ([] @ tbl_sessions db))" by simp
  qed
  with db' show ?thesis by simp
qed

lemma for_each_invariant:
  assumes "\<And>x s s'. I s \<Longrightarrow> f x s = Inr s' \<Longrightarrow> I s'" and "I s" and "for_each f xs s = Inr s'"
  shows "I s'"
  using assms(2,3)
proof (induction xs arbitrary: s)
  case Nil
  then show ?case by simp
next
  case (Cons x xs)
  then obtain s1 where a: "f x s = Inr s1" and b: "for_each f xs s1 = Inr s'"
    by (auto split: sum.splits)
  from Cons.IH [OF assms(1) [OF Cons.prems(1) a] b] show ?case .
qed

lemma delete_messages_pkey:
  assumes "distinct (map row_id (tbl_sessions db))" and "delete_messages P now db = Inr db'"
  shows "distinct (map row_id (tbl_sessions db'))"
  using assms by (auto simp: delete_messages_def)

lemma delete_sessions_pkey:
  assumes "distinct (map row_id (tbl_sessions db))" and "delete_sessions P now db = Inr db'"
  shows "distinct (map row_id (tbl_sessions db'))"
  by (rule for_each_invariant [where I = "\<lambda>s. distinct (map row_id (tbl_sessions s))",
        OF _ _ assms(2) [unfolded delete_sessions_def]])
    (use assms(1) in \<open>auto intro: delete_messages_pkey simp: distinct_map_filter\<close>)

lemma delete_users_pkey:
  assumes "distinct (map row_id (tbl_sessions db))" and "delete_users P now db = Inr db'"
  shows "distinct (map row_id (tbl_sessions db'))"
  by (rule for_each_invariant [where I = "\<lambda>s. distinct (map row_id (tbl_sessions s))",
        OF _ _ assms(2) [unfolded delete_users_def]])
    (use assms(1) in \<open>auto intro: delete_sessions_pkey\<close>)

lemma execute_pkey:
  assumes inv: "distinct (map row_id (tbl_sessions db))" and ex: "execute st now db = Inr db'"
  shows "distinct (map row_id (tbl_sessions db'))"
proof (cases st)
  case (Insert_user r)
  with ex have "insert_users r db = Inr db'" by simp
  then obtain NEW where "db' = db\<lparr>tbl_users := tbl_users db @ [NEW]\<rparr>"
    by (rule insert_users_Inr)
  with inv show ?thesis by simp
next
  case (Insert_session r)
  with ex have "insert_sessions r db = Inr db'" by simp
  then obtain NEW where "row_id NEW \<notin> row_id ` set (tbl_sessions db)"
    "db' = db\<lparr>tbl_sessions := tbl_sessions db @ [NEW]\<rparr>"
    by (rule insert_sessions_Inr)
  with inv show ?thesis by simp
next
  case (Insert_message r)
  with ex have "insert_messages r now db = Inr db'" by simp
  then obtain NEW where "db' = db\<lparr>tbl_messages := tbl_messages db @ [NEW]\<rparr>"
    by (rule insert_messages_Inr)
  with inv show ?thesis by simp
next
  case (Update_users P f)
  with ex have "update_users P f now db = Inr db'" by simp
  from update_users_rows(2) [OF this] inv show ?thesis by simp
next
  case (Update_sessions P f)
  with ex inv show ?thesis by (auto intro: update_sessions_pkey)
next
  case (Delete_users P)
  with ex inv show ?thesis by (auto intro: delete_users_pkey)
next
  case (Delete_sessions P)
  with ex inv show ?thesis by (auto intro: delete_sessions_pkey)
next
  case (Delete_messages P)
  with ex inv show ?thesis by (auto intro: delete_messages_pkey)
qed

lemma workload_sessions_pkey:
  "distinct (map row_id (tbl_sessions db)) \<Longrightarrow>
   distinct (map row_id (tbl_sessions (workload db sts)))"
proof (induction sts arbitrary: db)
  case Nil
  then show ?case by (simp add: workload_def)
next
  case (Cons ts sts)
  have "distinct (map row_id (tbl_sessions (commit db ts)))"
  proof (cases "execute (snd ts) (fst ts) db")
    case (Inl e)
    with Cons.prems show ?thesis by (simp add: commit_def)
  next
    case (Inr db')
    from execute_pkey [OF Cons.prems Inr] Inr show ?thesis by (simp add: commit_def)
  qed
  from Cons.IH [OF this] show ?case by (simp add: workload_Cons)
qed

lemma reachable_sessions_pkey:
  "distinct (map row_id (tbl_sessions (workload empty_db sts)))"
  by (rule workload_sessions_pkey) (simp add: empty_db_def)

text \<open>
  The session row that the script inserts as sample data (lines 271--272) does not
  fit: \<open>mode\<close> is \<open>VARCHAR(10)\<close> and \<open>'CONVERSATION'\<close> has twelve characters.
\<close>

lemma sample_session_too_long:
  "insert_sessions ((new_session sid uid now)\<lparr>mode := Some (str ''CONVERSATION''),
      level := Some (str ''A2''), s_is_active := Some True\<rparr>) db =
   Inl String_data_right_truncation"
  by (simp add: insert_sessions_def sessions_coerce_def new_session_def bind_err_def varchar_def
      varchar_null_def int4_def str_def)

end
